theory Spec2Isabelle
  imports Main "HOL-Library.AList"
begin

section \<open>Anti-delete: message archive and delete recovery (antidelete.js)\<close>

subsection \<open>JavaScript values\<close>

text \<open>
  Strings are the byte strings of the source file (UTF-8). A property that may be
  \<^verbatim>\<open>undefined\<close> or \<^verbatim>\<open>null\<close> is an \<open>option\<close>. A string is truthy when it is
  present and not empty; an object is truthy when it is present.
\<close>

definition truthy :: "string option \<Rightarrow> bool" where
  "truthy v = (case v of None \<Rightarrow> False | Some s \<Rightarrow> s \<noteq> [])"

text \<open>\<^verbatim>\<open>a || b\<close> on optional strings.\<close>

definition js_or :: "string option \<Rightarrow> string option \<Rightarrow> string option" where
  "js_or a b = (if truthy a then a else b)"

text \<open>\<^verbatim>\<open>a || ''\<close>.\<close>

definition or_empty :: "string option \<Rightarrow> string" where
  "or_empty v = (case v of None \<Rightarrow> [] | Some s \<Rightarrow> s)"

subsection \<open>Message keys\<close>

record msg_key =
  remoteJid :: "string option"
  key_id :: "string option"
  participant :: "string option"

text \<open>\<^verbatim>\<open>key?.field\<close>: the key itself may be absent.\<close>

definition opt_field :: "msg_key option \<Rightarrow> (msg_key \<Rightarrow> string option) \<Rightarrow> string option" where
  "opt_field key f = (case key of None \<Rightarrow> None | Some k \<Rightarrow> f k)"

record keys =
  strict :: string
  loose :: string
  idOnly :: string

definition makeKeys :: "msg_key option \<Rightarrow> keys" where
  "makeKeys key =
     (let jid = or_empty (opt_field key remoteJid);
          i = or_empty (opt_field key key_id);
          p = or_empty (opt_field key participant)
      in \<lparr>strict = jid @ ''|'' @ i @ ''|'' @ p,
          loose = jid @ ''|'' @ i,
          idOnly = i\<rparr>)"

subsection \<open>Message envelopes\<close>

record ext_text =
  etm_text :: "string option"

record media =
  caption :: "string option"

record protocol_message =
  pm_type :: "int option"
  pm_key :: "msg_key option"

text \<open>
  A content object of which the source reads nothing but its presence (an object is
  truthy whatever it holds).
\<close>

record payload =
  payload_data :: string

text \<open>
  A wrapper node carries one optional nested message (its field \<^verbatim>\<open>message\<close>, here
  \<open>inner\<close>). An envelope is a finite tree, as the transport decodes it.
\<close>

datatype 'm future_proof = FutureProof (inner: "'m option")

datatype message = Message
  (ephemeralMessage: "message future_proof option")
  (viewOnceMessage: "message future_proof option")
  (viewOnceMessageV2: "message future_proof option")
  (viewOnceMessageV2Extension: "message future_proof option")
  (conversation: "string option")
  (extendedTextMessage: "ext_text option")
  (imageMessage: "media option")
  (videoMessage: "media option")
  (stickerMessage: "payload option")
  (audioMessage: "payload option")
  (documentMessage: "payload option")
  (liveLocationMessage: "payload option")
  (locationMessage: "payload option")
  (protocolMessage: "protocol_message option")

record web_message =
  key :: "msg_key option"
  message :: "message option"

subsection \<open>Content resolver\<close>

text \<open>
  \<^verbatim>\<open>getContentType\<close> belongs to the transport library; it is a parameter here. The
  resolver returns the pair \<^verbatim>\<open>{ node, type }\<close>.
\<close>

function resolveContentNode ::
  "(message \<Rightarrow> string option) \<Rightarrow> message option \<Rightarrow> message option \<times> string option" where
  "resolveContentNode getContentType None = (None, None)"
| "resolveContentNode getContentType (Some m) =
     (case ephemeralMessage m of Some w \<Rightarrow> resolveContentNode getContentType (inner w)
      | None \<Rightarrow>
     (case viewOnceMessage m of Some w \<Rightarrow> resolveContentNode getContentType (inner w)
      | None \<Rightarrow>
     (case viewOnceMessageV2 m of Some w \<Rightarrow> resolveContentNode getContentType (inner w)
      | None \<Rightarrow>
     (case viewOnceMessageV2Extension m of Some w \<Rightarrow> resolveContentNode getContentType (inner w)
      | None \<Rightarrow> (Some m, getContentType m)))))"
  by pat_completeness auto
termination
proof (relation "measure (\<lambda>(g, mo). size_option size mo)")
  fix m :: message and w :: "message future_proof"
  have inner_less: "size_option size (inner w) < Suc (size_future_proof size w)"
    by (cases w) simp
  { assume "ephemeralMessage m = Some w"
    then have "size_future_proof size w < size m" by (cases m) simp
    with inner_less show "((g, inner w), (g, Some m)) \<in> measure (\<lambda>(g, mo). size_option size mo)"
      for g :: "message \<Rightarrow> string option"
      by simp }
  { assume "viewOnceMessage m = Some w"
    then have "size_future_proof size w < size m" by (cases m) simp
    with inner_less show "((g, inner w), (g, Some m)) \<in> measure (\<lambda>(g, mo). size_option size mo)"
      for g :: "message \<Rightarrow> string option"
      by simp }
  { assume "viewOnceMessageV2 m = Some w"
    then have "size_future_proof size w < size m" by (cases m) simp
    with inner_less show "((g, inner w), (g, Some m)) \<in> measure (\<lambda>(g, mo). size_option size mo)"
      for g :: "message \<Rightarrow> string option"
      by simp }
  { assume "viewOnceMessageV2Extension m = Some w"
    then have "size_future_proof size w < size m" by (cases m) simp
    with inner_less show "((g, inner w), (g, Some m)) \<in> measure (\<lambda>(g, mo). size_option size mo)"
      for g :: "message \<Rightarrow> string option"
      by simp }
qed simp

definition extractText :: "(message \<Rightarrow> string option) \<Rightarrow> message option \<Rightarrow> string" where
  "extractText getContentType containerMessage =
     (case fst (resolveContentNode getContentType containerMessage) of
        None \<Rightarrow> []
      | Some node \<Rightarrow>
          if truthy (conversation node) then or_empty (conversation node)
          else if truthy (Option.bind (extendedTextMessage node) etm_text)
            then or_empty (Option.bind (extendedTextMessage node) etm_text)
          else if truthy (Option.bind (imageMessage node) caption)
            then or_empty (Option.bind (imageMessage node) caption)
          else if truthy (Option.bind (videoMessage node) caption)
            then or_empty (Option.bind (videoMessage node) caption)
          else [])"

definition detectMediaKind :: "(message \<Rightarrow> string option) \<Rightarrow> message option \<Rightarrow> string option" where
  "detectMediaKind getContentType containerMessage =
     (case fst (resolveContentNode getContentType containerMessage) of
        None \<Rightarrow> None
      | Some node \<Rightarrow>
          if imageMessage node \<noteq> None then Some ''image''
          else if videoMessage node \<noteq> None then Some ''video''
          else if stickerMessage node \<noteq> None then Some ''sticker''
          else if audioMessage node \<noteq> None then Some ''audio''
          else if documentMessage node \<noteq> None then Some ''document''
          else if liveLocationMessage node \<noteq> None \<or> locationMessage node \<noteq> None
            then Some ''location''
          else None)"

subsection \<open>The cache with its three indexes\<close>

text \<open>
  A cached record is a JavaScript object; \<^verbatim>\<open>evictOldest\<close> compares records by object
  identity (\<^verbatim>\<open>rv === v\<close>). The field \<open>ref\<close> is that identity: \<^verbatim>\<open>add\<close> allocates a fresh
  one for every record from the counter \<open>next_ref\<close>.
  A \<^verbatim>\<open>Map\<close> iterates in insertion order, and \<^verbatim>\<open>evictOldest\<close> depends on that order
  (its sort is stable), so each index is an association list: \<^verbatim>\<open>set\<close> replaces the value
  of a key in place or appends a new key (\<open>AList.update\<close>), \<^verbatim>\<open>delete\<close> removes the key
  (\<open>AList.delete\<close>), \<^verbatim>\<open>get\<close> is \<open>map_of\<close>, \<^verbatim>\<open>size\<close> is \<open>length\<close>.
  \<^verbatim>\<open>Date.now()\<close> is the argument \<open>now\<close> (milliseconds).
\<close>

record archived =
  ref :: nat
  at :: int
  container :: web_message
  authorJid :: "string option"

type_synonym index = "(string \<times> archived) list"

record message_cache =
  ttlMs :: int
  strictMap :: index
  looseMap :: index
  idMap :: index
  next_ref :: nat

definition DEFAULT_TTL_MS :: int where
  "DEFAULT_TTL_MS = 24 * 60 * 60 * 1000"

definition MAX_CACHE :: nat where
  "MAX_CACHE = 5000"

text \<open>\<^verbatim>\<open>Math.ceil(MAX_CACHE * 0.3)\<close>: the double product \<^verbatim>\<open>5000 * 0.3\<close> is exactly 1500.\<close>

definition EVICT_COUNT :: nat where
  "EVICT_COUNT = 1500"

definition new_cache :: "int \<Rightarrow> message_cache" where
  "new_cache ttl = \<lparr>ttlMs = ttl, strictMap = [], looseMap = [], idMap = [], next_ref = 0\<rparr>"

definition total_size :: "message_cache \<Rightarrow> nat" where
  "total_size c = length (strictMap c) + length (looseMap c) + length (idMap c)"

text \<open>One pass of \<^verbatim>\<open>for (const [k, rv] of map.entries()) if (rv === v) map.delete(k)\<close>.\<close>

definition unlink :: "archived \<Rightarrow> index \<Rightarrow> index" where
  "unlink v m = filter (\<lambda>(k, rv). ref rv \<noteq> ref v) m"

definition evict_one :: "archived \<Rightarrow> message_cache \<Rightarrow> message_cache" where
  "evict_one v c =
     c\<lparr>strictMap := unlink v (strictMap c),
       looseMap := unlink v (looseMap c),
       idMap := unlink v (idMap c)\<rparr>"

text \<open>
  The records that \<^verbatim>\<open>evictOldest(count)\<close> removes: the first \<^verbatim>\<open>Math.min(count, arr.length)\<close>
  elements of \<^verbatim>\<open>arr\<close>, the values of \<^verbatim>\<open>strictMap\<close> sorted by insertion time (the sort is
  stable, as \<open>sort_key\<close> is).
\<close>

definition oldest :: "nat \<Rightarrow> message_cache \<Rightarrow> archived list" where
  "oldest count c =
     (let arr = sort_key at (map snd (strictMap c))
      in take (min count (length arr)) arr)"

definition evictOldest :: "nat \<Rightarrow> message_cache \<Rightarrow> message_cache" where
  "evictOldest count c = fold evict_one (oldest count c) c"

definition add :: "msg_key option \<Rightarrow> web_message \<Rightarrow> string option \<Rightarrow> int \<Rightarrow> message_cache \<Rightarrow> message_cache" where
  "add k cont author now c0 =
     (let ks = makeKeys k;
          c = (if total_size c0 > MAX_CACHE * 3 then evictOldest EVICT_COUNT c0 else c0);
          r = \<lparr>ref = next_ref c, at = now, container = cont, authorJid = author\<rparr>
      in c\<lparr>strictMap := AList.update (strict ks) r (strictMap c),
            looseMap := AList.update (loose ks) r (looseMap c),
            idMap := (if idOnly ks \<noteq> [] then AList.update (idOnly ks) r (idMap c) else idMap c),
            next_ref := Suc (next_ref c)\<rparr>)"

text \<open>The lookup returns the record, or \<open>None\<close> for \<^verbatim>\<open>null\<close>, and the cache it leaves.\<close>

definition getByRevokedKey :: "msg_key option \<Rightarrow> int \<Rightarrow> message_cache \<Rightarrow> archived option \<times> message_cache" where
  "getByRevokedKey k now c =
     (let ks = makeKeys k;
          r1 = map_of (strictMap c) (strict ks);
          r2 = (if r1 = None then map_of (looseMap c) (loose ks) else r1);
          r3 = (if r2 = None \<and> idOnly ks \<noteq> [] then map_of (idMap c) (idOnly ks) else r2)
      in case r3 of
           None \<Rightarrow> (None, c)
         | Some r \<Rightarrow>
             if now - at r > ttlMs c
             then (None,
                   c\<lparr>strictMap := AList.delete (strict ks) (strictMap c),
                     looseMap := AList.delete (loose ks) (looseMap c),
                     idMap := (if idOnly ks \<noteq> [] then AList.delete (idOnly ks) (idMap c)
                               else idMap c)\<rparr>)
             else (Some r, c))"

definition cleanup :: "int \<Rightarrow> message_cache \<Rightarrow> message_cache" where
  "cleanup now c =
     (let expire = filter (\<lambda>(k, v). \<not> (now - at v > ttlMs c))
      in c\<lparr>strictMap := expire (strictMap c),
            looseMap := expire (looseMap c),
            idMap := expire (idMap c)\<rparr>)"

definition clear :: "message_cache \<Rightarrow> message_cache" where
  "clear c = c\<lparr>strictMap := [], looseMap := [], idMap := []\<rparr>"

subsection \<open>Host primitives, outbound sends and exceptions\<close>

datatype error = Thrown string

datatype content =
  Text string
| Image string string
| Video string string
| Sticker string
| Audio string
| Document string

datatype route = Channel | Bare

text \<open>
  One call of a send primitive: through \<^verbatim>\<open>sendWithChannel\<close> (\<open>Channel\<close>) or through
  \<^verbatim>\<open>sock.sendMessage\<close> (\<open>Bare\<close>), with the target, the content and whether the call
  returned (\<open>True\<close>) or threw.
\<close>

datatype attempt = Attempt route string content bool

text \<open>
  The host: the two send primitives (their outcome may depend on everything attempted
  so far), the media download of the transport library (its outcome may depend on the
  time), \<^verbatim>\<open>getContentType\<close> and the locale's rendering of a time.
\<close>

record host =
  sendWithChannel :: "attempt list \<Rightarrow> string \<Rightarrow> content \<Rightarrow> error + unit"
  sendMessage :: "attempt list \<Rightarrow> string \<Rightarrow> content \<Rightarrow> error + unit"
  downloadMediaMessage :: "int \<Rightarrow> web_message \<Rightarrow> error + string"
  getContentType :: "message \<Rightarrow> string option"
  toLocaleString :: "int \<Rightarrow> string"

text \<open>
  The options of \<^verbatim>\<open>attachAntiDelete\<close>. The injected formatter is taken at its declared
  type \<^verbatim>\<open>(deleterJid: string, chatId: string) => string\<close>: given two strings it returns
  a string. A formatter that throws instead is outside that type and has no counterpart
  here; \<^verbatim>\<open>handleRevoke\<close> calls the formatter outside any \<^verbatim>\<open>try\<close>.
\<close>

record options =
  opt_ttlMs :: "int option"
  notifyText :: "(string \<Rightarrow> string \<Rightarrow> string) option"
  opt_forwardToJid :: "string option"

text \<open>
  The closure state of \<^verbatim>\<open>attachAntiDelete\<close>, and \<open>sent\<close>: every call of a send primitive
  so far, in order.
\<close>

record state =
  cache :: message_cache
  enabled :: bool
  forwardToJid :: "string option"
  sent :: "attempt list"

text \<open>
  An asynchronous function: it changes the state and either returns (\<open>Inr\<close>) or throws
  (\<open>Inl\<close>). What it did to the state before throwing stays done.
\<close>

type_synonym 'a io = "state \<Rightarrow> (error + 'a) \<times> state"

definition returns :: "'a \<Rightarrow> 'a io" where
  "returns a s = (Inr a, s)"

definition and_then :: "'a io \<Rightarrow> ('a \<Rightarrow> 'b io) \<Rightarrow> 'b io" where
  "and_then f g s = (case f s of (Inl e, s') \<Rightarrow> (Inl e, s') | (Inr a, s') \<Rightarrow> g a s')"

definition try_catch :: "'a io \<Rightarrow> (error \<Rightarrow> 'a io) \<Rightarrow> 'a io" where
  "try_catch f h s = (case f s of (Inl e, s') \<Rightarrow> h e s' | (Inr a, s') \<Rightarrow> (Inr a, s'))"

definition call_sendWithChannel :: "host \<Rightarrow> string \<Rightarrow> content \<Rightarrow> unit io" where
  "call_sendWithChannel h jid c s =
     (let r = sendWithChannel h (sent s) jid c
      in (r, s\<lparr>sent := sent s @ [Attempt Channel jid c (\<not> isl r)]\<rparr>))"

definition call_sendMessage :: "host \<Rightarrow> string \<Rightarrow> content \<Rightarrow> unit io" where
  "call_sendMessage h jid c s =
     (let r = sendMessage h (sent s) jid c
      in (r, s\<lparr>sent := sent s @ [Attempt Bare jid c (\<not> isl r)]\<rparr>))"

definition call_download :: "host \<Rightarrow> int \<Rightarrow> web_message \<Rightarrow> string io" where
  "call_download h now cont s = (downloadMediaMessage h now cont, s)"

definition safeSend :: "host \<Rightarrow> string \<Rightarrow> content \<Rightarrow> unit io" where
  "safeSend h jid c =
     try_catch (call_sendWithChannel h jid c)
       (\<lambda>e. try_catch (call_sendMessage h jid c) (\<lambda>e'. returns ()))"

subsection \<open>The resolver on a bounded call stack\<close>

text \<open>
  \<^verbatim>\<open>resolveContentNode\<close> calls itself once for every wrapper level, and each call takes a
  frame of the call stack; when the stack is exhausted the engine throws a
  \<^verbatim>\<open>RangeError\<close>. How many nested calls the stack has room for belongs to the engine and
  to the place of the call, not to the source: it is the parameter \<open>frames\<close>. The source
  has no depth counter of its own.
\<close>

definition RangeError :: error where
  "RangeError = Thrown ''RangeError''"

fun resolveContentNode_on_stack ::
  "nat \<Rightarrow> (message \<Rightarrow> string option) \<Rightarrow> message option
     \<Rightarrow> error + (message option \<times> string option)" where
  "resolveContentNode_on_stack 0 g mo = Inl RangeError"
| "resolveContentNode_on_stack (Suc frames) g None = Inr (None, None)"
| "resolveContentNode_on_stack (Suc frames) g (Some m) =
     (case ephemeralMessage m of
        Some w \<Rightarrow> resolveContentNode_on_stack frames g (inner w)
      | None \<Rightarrow>
     (case viewOnceMessage m of
        Some w \<Rightarrow> resolveContentNode_on_stack frames g (inner w)
      | None \<Rightarrow>
     (case viewOnceMessageV2 m of
        Some w \<Rightarrow> resolveContentNode_on_stack frames g (inner w)
      | None \<Rightarrow>
     (case viewOnceMessageV2Extension m of
        Some w \<Rightarrow> resolveContentNode_on_stack frames g (inner w)
      | None \<Rightarrow> Inr (Some m, g m)))))"

text \<open>
  The number of wrapper levels the resolver goes through on an envelope: the calls it
  makes after the first.
\<close>

function wrappers :: "message option \<Rightarrow> nat" where
  "wrappers None = 0"
| "wrappers (Some m) =
     (case ephemeralMessage m of Some w \<Rightarrow> Suc (wrappers (inner w))
      | None \<Rightarrow>
     (case viewOnceMessage m of Some w \<Rightarrow> Suc (wrappers (inner w))
      | None \<Rightarrow>
     (case viewOnceMessageV2 m of Some w \<Rightarrow> Suc (wrappers (inner w))
      | None \<Rightarrow>
     (case viewOnceMessageV2Extension m of Some w \<Rightarrow> Suc (wrappers (inner w))
      | None \<Rightarrow> 0))))"
  by pat_completeness auto
termination
proof (relation "measure (size_option size)")
  fix m :: message and w :: "message future_proof"
  have inner_less: "size_option size (inner w) < Suc (size_future_proof size w)"
    by (cases w) simp
  { assume "ephemeralMessage m = Some w"
    then have "size_future_proof size w < size m" by (cases m) simp
    with inner_less show "(inner w, Some m) \<in> measure (size_option size)"
      by simp }
  { assume "viewOnceMessage m = Some w"
    then have "size_future_proof size w < size m" by (cases m) simp
    with inner_less show "(inner w, Some m) \<in> measure (size_option size)"
      by simp }
  { assume "viewOnceMessageV2 m = Some w"
    then have "size_future_proof size w < size m" by (cases m) simp
    with inner_less show "(inner w, Some m) \<in> measure (size_option size)"
      by simp }
  { assume "viewOnceMessageV2Extension m = Some w"
    then have "size_future_proof size w < size m" by (cases m) simp
    with inner_less show "(inner w, Some m) \<in> measure (size_option size)"
      by simp }
qed simp

subsection \<open>Notice text and outgoing content\<close>

text \<open>The two glyphs of the default template, as the bytes the source file holds.\<close>

definition glyph_title :: string where
  "glyph_title = [CHR 0xC3, CHR 0xB0, CHR 0xC5, CHR 0xB8, CHR 0xC2, CHR 0xA7, CHR 0xC2, CHR 0xA9]"

definition glyph_bullet :: string where
  "glyph_bullet = [CHR 0xC3, CHR 0xA2, CHR 0xE2, CHR 0x82, CHR 0xAC, CHR 0xC2, CHR 0xA2]"

definition buildNoticeText ::
  "host \<Rightarrow> string \<Rightarrow> string \<Rightarrow> (string \<Rightarrow> string \<Rightarrow> string) option \<Rightarrow> int \<Rightarrow> string" where
  "buildNoticeText h deleterJid chatId customBuilder now =
     (case customBuilder of
        Some f \<Rightarrow> f deleterJid chatId
      | None \<Rightarrow>
          glyph_title @ '' Anti-Delete (Global)'' @ [CHR 0x0A] @
          glyph_bullet @ '' Chat: '' @ chatId @ [CHR 0x0A] @
          glyph_bullet @ '' Deleted by: '' @ takeWhile (\<lambda>ch. ch \<noteq> CHR ''@'') deleterJid @ [CHR 0x0A] @
          glyph_bullet @ '' Time: '' @ toLocaleString h now)"

definition buildOutgoingContent :: "string \<Rightarrow> string \<Rightarrow> string \<Rightarrow> content" where
  "buildOutgoingContent kind buffer cap =
     (if kind = ''image'' then Image buffer cap
      else if kind = ''video'' then Video buffer cap
      else if kind = ''sticker'' then Sticker buffer
      else if kind = ''audio'' then Audio buffer
      else if kind = ''document'' then Document buffer
      else if kind = ''location'' then Text (if cap \<noteq> [] then cap else ''(location message)'')
      else Text (if cap \<noteq> [] then cap else ''(unsupported message type)''))"

definition COULD_NOT_RESTORE :: string where
  "COULD_NOT_RESTORE = [CHR 0x0A] @ ''(Couldn'' @ [CHR 0x27] @ ''t restore content)''"

definition MEDIA_NOT_RESTORED :: string where
  "MEDIA_NOT_RESTORED = [CHR 0x0A] @ ''(Media could not be restored)''"

subsection \<open>The revoke handler and the two event feeds\<close>

definition attachAntiDelete :: "options \<Rightarrow> state" where
  "attachAntiDelete opts =
     \<lparr>cache = new_cache (case opt_ttlMs opts of None \<Rightarrow> DEFAULT_TTL_MS | Some t \<Rightarrow> t),
      enabled = True,
      forwardToJid = js_or (opt_forwardToJid opts) None,
      sent = []\<rparr>"

definition lookup :: "msg_key option \<Rightarrow> int \<Rightarrow> archived option io" where
  "lookup k now s =
     (let (r, c) = getByRevokedKey k now (cache s) in (Inr r, s\<lparr>cache := c\<rparr>))"

text \<open>
  The part of \<^verbatim>\<open>handleRevoke\<close> after the lookup: \<open>r\<close> is what the lookup returned,
  \<open>targetJid\<close> and \<open>notice\<close> are the constants of the same names.
\<close>

definition dispatch :: "host \<Rightarrow> string \<Rightarrow> string \<Rightarrow> int \<Rightarrow> archived option \<Rightarrow> unit io" where
  "dispatch h targetJid notice now r =
     (case r of
        None \<Rightarrow> safeSend h targetJid (Text (notice @ COULD_NOT_RESTORE))
      | Some rc \<Rightarrow>
          (let cap = extractText (getContentType h) (message (container rc));
               kind = detectMediaKind (getContentType h) (message (container rc))
           in (case kind of
                 None \<Rightarrow>
                   safeSend h targetJid
                     (Text (notice @ [CHR 0x0A, CHR 0x0A] @
                            (if cap \<noteq> [] then cap else ''(no text content)'')))
               | Some kd \<Rightarrow>
                   try_catch
                     (and_then (call_download h now (container rc)) (\<lambda>buffer.
                        and_then (safeSend h targetJid (Text notice)) (\<lambda>_.
                          safeSend h targetJid (buildOutgoingContent kd buffer cap))))
                     (\<lambda>e. safeSend h targetJid (Text (notice @ MEDIA_NOT_RESTORED))))))"

text \<open>The constants \<^verbatim>\<open>deleterJid\<close>, \<^verbatim>\<open>targetJid\<close> and \<^verbatim>\<open>notice\<close> of \<^verbatim>\<open>handleRevoke\<close>.\<close>

definition deleterJid_of :: "msg_key option \<Rightarrow> string option \<Rightarrow> string" where
  "deleterJid_of revokedKey revokerJid =
     or_empty (js_or (js_or revokerJid (opt_field revokedKey participant))
                     (opt_field revokedKey remoteJid))"

definition targetJid_of :: "state \<Rightarrow> msg_key option \<Rightarrow> string" where
  "targetJid_of s revokedKey = or_empty (js_or (forwardToJid s) (opt_field revokedKey remoteJid))"

definition notice_of :: "host \<Rightarrow> options \<Rightarrow> msg_key option \<Rightarrow> string option \<Rightarrow> int \<Rightarrow> string" where
  "notice_of h opts revokedKey revokerJid now =
     buildNoticeText h (deleterJid_of revokedKey revokerJid)
       (or_empty (opt_field revokedKey remoteJid)) (notifyText opts) now"

definition handleRevoke :: "host \<Rightarrow> options \<Rightarrow> msg_key option \<Rightarrow> string option \<Rightarrow> int \<Rightarrow> unit io" where
  "handleRevoke h opts revokedKey revokerJid now s =
     (if \<not> enabled s \<or> revokedKey = None then returns () s
      else if \<not> truthy (opt_field revokedKey remoteJid) then returns () s
      else
        and_then (lookup revokedKey now)
          (\<lambda>r s1. dispatch h (targetJid_of s1 revokedKey)
                      (notice_of h opts revokedKey revokerJid now) now r s1)
          s)"

text \<open>\<^verbatim>\<open>pm && pm.type === 0 && pm.key\<close>.\<close>

definition is_revoke :: "protocol_message option \<Rightarrow> bool" where
  "is_revoke pm = (case pm of None \<Rightarrow> False | Some p \<Rightarrow> pm_type p = Some 0 \<and> pm_key p \<noteq> None)"

text \<open>
  The body of the loop of \<^verbatim>\<open>onUpsert\<close> for one message \<open>m\<close>, handled at time \<open>now\<close>.
\<close>

definition upsert_one :: "host \<Rightarrow> options \<Rightarrow> int \<times> web_message \<Rightarrow> unit io" where
  "upsert_one h opts tm =
     (let now = fst tm; m = snd tm; pm = Option.bind (message m) protocolMessage
      in try_catch
           (if is_revoke pm then
              handleRevoke h opts (Option.bind pm pm_key)
                (js_or (js_or (opt_field (key m) participant) (opt_field (key m) remoteJid)) None)
                now
            else (\<lambda>s.
              if \<not> enabled s then returns () s
              else if message m = None then returns () s
              else returns ()
                     (s\<lparr>cache := add (key m) m
                                      (js_or (opt_field (key m) participant) (opt_field (key m) remoteJid))
                                      now (cache s)\<rparr>)))
           (\<lambda>e. returns ()))"

fun onUpsert :: "host \<Rightarrow> options \<Rightarrow> (int \<times> web_message) list \<Rightarrow> unit io" where
  "onUpsert h opts [] = returns ()"
| "onUpsert h opts (tm # rest) = and_then (upsert_one h opts tm) (\<lambda>_. onUpsert h opts rest)"

text \<open>An entry of \<^verbatim>\<open>messages.update\<close> is read only at \<^verbatim>\<open>u.update?.message\<close>.\<close>

definition update_one :: "host \<Rightarrow> options \<Rightarrow> int \<times> message option \<Rightarrow> unit io" where
  "update_one h opts tu =
     (let now = fst tu; pm = Option.bind (snd tu) protocolMessage
      in try_catch
           (if is_revoke pm then handleRevoke h opts (Option.bind pm pm_key) None now
            else returns ())
           (\<lambda>e. returns ()))"

fun onUpdate :: "host \<Rightarrow> options \<Rightarrow> (int \<times> message option) list \<Rightarrow> unit io" where
  "onUpdate h opts [] = returns ()"
| "onUpdate h opts (tu # rest) = and_then (update_one h opts tu) (\<lambda>_. onUpdate h opts rest)"

definition enable :: "state \<Rightarrow> state" where
  "enable s = s\<lparr>enabled := True\<rparr>"

definition disable :: "state \<Rightarrow> state" where
  "disable s = s\<lparr>enabled := False\<rparr>"

definition isEnabled :: "state \<Rightarrow> bool" where
  "isEnabled s = enabled s"

definition setForwardToJid :: "string option \<Rightarrow> state \<Rightarrow> state" where
  "setForwardToJid jid s = s\<lparr>forwardToJid := js_or jid None\<rparr>"

text \<open>\<^verbatim>\<open>stop\<close>, as far as the state goes: the cache is cleared (the listeners and the timer are
  not part of the state).\<close>

definition stop :: "state \<Rightarrow> state" where
  "stop s = s\<lparr>cache := clear (cache s)\<rparr>"

subsection \<open>Example inputs\<close>

definition empty_message :: message where
  "empty_message = Message None None None None None None None None None None None None None None"

definition text_message :: "string \<Rightarrow> message" where
  "text_message t =
     Message None None None None (Some t) None None None None None None None None None"

definition image_message :: "string \<Rightarrow> message" where
  "image_message cap =
     Message None None None None None None (Some \<lparr>caption = Some cap\<rparr>) None None None None None
       None None"

definition ephemeral :: "message \<Rightarrow> message" where
  "ephemeral m =
     Message (Some (FutureProof (Some m))) None None None None None None None None None None None
       None None"

fun nest :: "nat \<Rightarrow> message \<Rightarrow> message" where
  "nest 0 m = m"
| "nest (Suc n) m = ephemeral (nest n m)"

text \<open>The other three wrapper kinds around a message.\<close>

definition view_once :: "message \<Rightarrow> message" where
  "view_once m =
     Message None (Some (FutureProof (Some m))) None None None None None None None None None None
       None None"

definition view_once_v2 :: "message \<Rightarrow> message" where
  "view_once_v2 m =
     Message None None (Some (FutureProof (Some m))) None None None None None None None None None
       None None"

definition view_once_v2_extension :: "message \<Rightarrow> message" where
  "view_once_v2_extension m =
     Message None None None (Some (FutureProof (Some m))) None None None None None None None None
       None None"

definition chat_key :: "string \<Rightarrow> string \<Rightarrow> string \<Rightarrow> msg_key option" where
  "chat_key jid i p = Some \<lparr>remoteJid = Some jid, key_id = Some i, participant = Some p\<rparr>"

definition observed :: "string \<Rightarrow> string \<Rightarrow> string \<Rightarrow> message \<Rightarrow> web_message" where
  "observed jid i p m = \<lparr>key = chat_key jid i p, message = Some m\<rparr>"

text \<open>A host whose sends succeed and whose media download throws.\<close>

definition quiet_host :: host where
  "quiet_host =
     \<lparr>sendWithChannel = (\<lambda>before jid c. Inr ()),
      sendMessage = (\<lambda>before jid c. Inr ()),
      downloadMediaMessage = (\<lambda>now cont. Inl (Thrown ''download failed'')),
      getContentType = (\<lambda>m. None),
      toLocaleString = (\<lambda>now. ''now'')\<rparr>"

text \<open>A host whose every primitive throws.\<close>

definition broken_host :: host where
  "broken_host =
     \<lparr>sendWithChannel = (\<lambda>before jid c. Inl (Thrown ''channel'')),
      sendMessage = (\<lambda>before jid c. Inl (Thrown ''socket'')),
      downloadMediaMessage = (\<lambda>now cont. Inl (Thrown ''download failed'')),
      getContentType = (\<lambda>m. None),
      toLocaleString = (\<lambda>now. ''now'')\<rparr>"

definition plain_options :: options where
  "plain_options = \<lparr>opt_ttlMs = None, notifyText = None, opt_forwardToJid = None\<rparr>"

text \<open>The state after a fresh attachment has observed the messages \<open>ms\<close> at time 0.\<close>

definition archive :: "web_message list \<Rightarrow> state" where
  "archive ms =
     snd (onUpsert quiet_host plain_options (map (Pair 0) ms) (attachAntiDelete plain_options))"


subsection \<open>What one wrapped send attempts\<close>

text \<open>
  The calls of the send primitives that make up one outbound send: one call of
  \<^verbatim>\<open>sendWithChannel\<close> and, only when that call threw, one call of \<^verbatim>\<open>sock.sendMessage\<close>
  with the same target and content. \<open>before\<close> is everything attempted earlier.
\<close>

definition one_send :: "host \<Rightarrow> attempt list \<Rightarrow> string \<Rightarrow> content \<Rightarrow> attempt list" where
  "one_send h before jid c =
     (if isl (sendWithChannel h before jid c)
      then [Attempt Channel jid c False,
            Attempt Bare jid c (\<not> isl (sendMessage h (before @ [Attempt Channel jid c False]) jid c))]
      else [Attempt Channel jid c True])"

subsection \<open>Predicates of the statements\<close>

text \<open>A node none of whose four wrapper fields is populated.\<close>

definition no_wrapper :: "message \<Rightarrow> bool" where
  "no_wrapper m =
     (ephemeralMessage m = None \<and> viewOnceMessage m = None \<and> viewOnceMessageV2 m = None \<and>
      viewOnceMessageV2Extension m = None)"


text \<open>The object identities of the records an index points to, in the order of the index.\<close>

definition refs :: "index \<Rightarrow> nat list" where
  "refs m = map (\<lambda>e. ref (snd e)) m"

text \<open>A sequence of inserts: each is the key, the container, the author and the time.\<close>

definition add_all ::
  "(msg_key option \<times> web_message \<times> string option \<times> int) list \<Rightarrow> message_cache \<Rightarrow> message_cache" where
  "add_all ins c = fold (\<lambda>(k, cont, a, now). add k cont a now) ins c"

definition strict_of :: "msg_key option \<times> web_message \<times> string option \<times> int \<Rightarrow> string" where
  "strict_of i = strict (makeKeys (fst i))"

text \<open>
  What inserts of records with distinct strict keys keep true of the cache: no index
  points to a record twice, the loose and the id-only index point only to records the
  strict index points to, and every identity in use is below the allocation counter.
\<close>

definition cache_inv :: "message_cache \<Rightarrow> bool" where
  "cache_inv c =
     (distinct (refs (strictMap c)) \<and> distinct (refs (looseMap c)) \<and> distinct (refs (idMap c)) \<and>
      set (refs (looseMap c)) \<subseteq> set (refs (strictMap c)) \<and>
      set (refs (idMap c)) \<subseteq> set (refs (strictMap c)) \<and>
      (\<forall>i \<in> set (refs (strictMap c)). i < next_ref c))"

text \<open>The cache on which \<^verbatim>\<open>add\<close> installs the new record: after the soft cap protection.\<close>

definition made_room :: "message_cache \<Rightarrow> message_cache" where
  "made_room c = (if total_size c > MAX_CACHE * 3 then evictOldest EVICT_COUNT c else c)"

text \<open>
  A family of distinct messages of one chat: the \<open>n\<close>-th has an id of \<open>n + 1\<close> letters and
  is observed at time \<open>n\<close>. \<open>fill n\<close> is the cache after the first \<open>n\<close> of them have been
  inserted into a new cache, \<open>nth_record n\<close> the record the \<open>n\<close>-th insert creates.
\<close>

definition nth_id :: "nat \<Rightarrow> string" where
  "nth_id n = replicate (Suc n) (CHR ''m'')"

definition nth_key :: "nat \<Rightarrow> msg_key option" where
  "nth_key n = chat_key ''C1'' (nth_id n) ''''"

definition nth_message :: "nat \<Rightarrow> web_message" where
  "nth_message n = observed ''C1'' (nth_id n) '''' (text_message ''hello'')"

definition nth_insert :: "nat \<Rightarrow> msg_key option \<times> web_message \<times> string option \<times> int" where
  "nth_insert n = (nth_key n, nth_message n, Some ''C1'', int n)"

definition nth_record :: "nat \<Rightarrow> archived" where
  "nth_record n = \<lparr>ref = n, at = int n, container = nth_message n, authorJid = Some ''C1''\<rparr>"

definition fill :: "nat \<Rightarrow> message_cache" where
  "fill n = add_all (map nth_insert [0..<n]) (new_cache DEFAULT_TTL_MS)"

text \<open>The strict and the loose key of the \<open>n\<close>-th message of the family.\<close>

definition nth_strict :: "nat \<Rightarrow> string" where
  "nth_strict n = ''C1|'' @ nth_id n @ ''|''"

definition nth_loose :: "nat \<Rightarrow> string" where
  "nth_loose n = ''C1|'' @ nth_id n"

text \<open>
  The cache that holds the first \<open>n\<close> records of the family in order of insertion; it is
  what \<open>fill n\<close> evaluates to as long as no insert has evicted.
\<close>

definition filled :: "nat \<Rightarrow> message_cache" where
  "filled n =
     \<lparr>ttlMs = DEFAULT_TTL_MS,
      strictMap = map (\<lambda>i. (nth_strict i, nth_record i)) [0..<n],
      looseMap = map (\<lambda>i. (nth_loose i, nth_record i)) [0..<n],
      idMap = map (\<lambda>i. (nth_id i, nth_record i)) [0..<n],
      next_ref = n\<rparr>"

section \<open>Outbound sends\<close>

lemma safeSend_result:
  "safeSend h jid c s = (Inr (), s\<lparr>sent := sent s @ one_send h (sent s) jid c\<rparr>)"
  by (cases "sendWithChannel h (sent s) jid c";
      cases "sendMessage h (sent s @ [Attempt Channel jid c False]) jid c")
     (simp_all add: safeSend_def try_catch_def call_sendWithChannel_def call_sendMessage_def
        returns_def Let_def one_send_def)

lemma truthy_chat_key_present: "truthy (opt_field k f) \<Longrightarrow> k \<noteq> None"
  by (cases k) (simp_all add: opt_field_def truthy_def)

lemma handleRevoke_lookup:
  assumes "enabled s" and "truthy (opt_field revokedKey remoteJid)"
    and "getByRevokedKey revokedKey now (cache s) = (r, c')"
  shows "handleRevoke h opts revokedKey revokerJid now s =
           dispatch h (targetJid_of s revokedKey) (notice_of h opts revokedKey revokerJid now)
             now r (s\<lparr>cache := c'\<rparr>)"
proof -
  have "revokedKey \<noteq> None"
    using assms(2) by (rule truthy_chat_key_present)
  with assms show ?thesis
    by (cases revokedKey) (simp_all add: handleRevoke_def and_then_def lookup_def targetJid_of_def)
qed

lemmas fixture_defs = archive_def attachAntiDelete_def plain_options_def quiet_host_def
  broken_host_def observed_def chat_key_def text_message_def image_message_def new_cache_def
  DEFAULT_TTL_MS_def

lemmas run_defs = upsert_one_def is_revoke_def and_then_def try_catch_def returns_def add_def
  getByRevokedKey_def makeKeys_def opt_field_def or_empty_def js_or_def truthy_def total_size_def
  MAX_CACHE_def Let_def

section \<open>Recovery on a cache miss\<close>

text \<open>
  C8. The feature is enabled, the revoked key has a chat id and the lookup misses. Then
  \<^verbatim>\<open>handleRevoke\<close> returns without throwing, and what it adds to the calls of the send
  primitives is one outbound send: the notice followed by the could-not-restore marker,
  to the target, through \<^verbatim>\<open>sendWithChannel\<close>, and once more through \<^verbatim>\<open>sock.sendMessage\<close>
  only when the first call threw. Nothing else is sent and nothing is looked up again;
  the cache is the one the lookup left.
\<close>

theorem miss_sends_could_not_restore:
  assumes "enabled s" and "truthy (opt_field revokedKey remoteJid)"
    and "getByRevokedKey revokedKey now (cache s) = (None, c')"
  shows "handleRevoke h opts revokedKey revokerJid now s =
           (Inr (),
            s\<lparr>cache := c',
              sent := sent s @
                one_send h (sent s) (targetJid_of s revokedKey)
                  (Text (notice_of h opts revokedKey revokerJid now @ COULD_NOT_RESTORE))\<rparr>)"
  by (simp add: handleRevoke_lookup [OF assms] dispatch_def safeSend_result)

text \<open>
  A key never inserted, revoked on a fresh attachment whose every send primitive throws:
  both calls are made, both fail, and the handler still returns.
\<close>

theorem miss_sends_could_not_restore_witness:
  "enabled (attachAntiDelete plain_options) \<and>
   truthy (opt_field (chat_key ''C1'' ''M1'' ''P9'') remoteJid) \<and>
   getByRevokedKey (chat_key ''C1'' ''M1'' ''P9'') 5 (cache (attachAntiDelete plain_options))
     = (None, cache (attachAntiDelete plain_options)) \<and>
   handleRevoke broken_host plain_options (chat_key ''C1'' ''M1'' ''P9'') None 5
       (attachAntiDelete plain_options) =
     (Inr (),
      (attachAntiDelete plain_options)
        \<lparr>sent :=
           [Attempt Channel ''C1''
              (Text (notice_of broken_host plain_options (chat_key ''C1'' ''M1'' ''P9'') None 5
                     @ COULD_NOT_RESTORE)) False,
            Attempt Bare ''C1''
              (Text (notice_of broken_host plain_options (chat_key ''C1'' ''M1'' ''P9'') None 5
                     @ COULD_NOT_RESTORE)) False]\<rparr>)"
  using miss_sends_could_not_restore [of "attachAntiDelete plain_options"
      "chat_key ''C1'' ''M1'' ''P9''" 5 "cache (attachAntiDelete plain_options)" broken_host
      plain_options None]
  by (simp add: fixture_defs run_defs one_send_def targetJid_of_def)

section \<open>A revoked key without a chat id\<close>

text \<open>
  C10. When the revoked key has no chat id (\<^verbatim>\<open>remoteJid\<close> absent or empty, or the key itself
  absent), \<^verbatim>\<open>handleRevoke\<close> returns at once: no send primitive is called and the state,
  the cache included, is unchanged. This holds whatever the flag and the cache are, so
  also when the feature is enabled and a matching record is cached.
\<close>

theorem no_chat_id_no_send:
  assumes "\<not> truthy (opt_field revokedKey remoteJid)"
  shows "handleRevoke h opts revokedKey revokerJid now s = (Inr (), s)"
  using assms by (simp add: handleRevoke_def returns_def)

text \<open>
  The feature is enabled and the record of message \<open>M1\<close> is cached; a revoke of \<open>M1\<close> whose
  key has no chat id would hit that record by the id-only key, and nothing is sent.
\<close>

theorem no_chat_id_no_send_witness:
  "enabled (archive [observed ''C1'' ''M1'' '''' (text_message ''hello'')]) \<and>
   fst (getByRevokedKey (Some \<lparr>remoteJid = None, key_id = Some ''M1'', participant = None\<rparr>) 5
        (cache (archive [observed ''C1'' ''M1'' '''' (text_message ''hello'')]))) \<noteq> None \<and>
   handleRevoke quiet_host plain_options
       (Some \<lparr>remoteJid = None, key_id = Some ''M1'', participant = None\<rparr>) (Some ''P9'') 5
       (archive [observed ''C1'' ''M1'' '''' (text_message ''hello'')]) =
     (Inr (), archive [observed ''C1'' ''M1'' '''' (text_message ''hello'')])"
  using no_chat_id_no_send [of "Some \<lparr>remoteJid = None, key_id = Some ''M1'', participant = None\<rparr>"
      quiet_host plain_options "Some ''P9''" 5
      "archive [observed ''C1'' ''M1'' '''' (text_message ''hello'')]"]
  by (simp add: fixture_defs run_defs)

section \<open>Recovery of a media message whose download fails\<close>

lemma call_download_throws:
  "isl (downloadMediaMessage h now cont) \<Longrightarrow>
   try_catch (and_then (call_download h now cont) f) g s =
     g (projl (downloadMediaMessage h now cont)) s"
  by (cases "downloadMediaMessage h now cont")
     (simp_all add: try_catch_def and_then_def call_download_def)

text \<open>
  C9. The feature is enabled, the revoked key has a chat id, the lookup hits a record with
  a media kind, and the media download throws. Then \<^verbatim>\<open>handleRevoke\<close> returns without
  throwing and adds exactly one outbound send, the notice followed by the
  media-could-not-be-restored marker; no media content is sent. Moreover every
  \<^verbatim>\<open>safeSend\<close> returns without throwing and makes one call of \<^verbatim>\<open>sendWithChannel\<close> and,
  only when that call threw, one call of \<^verbatim>\<open>sock.sendMessage\<close>, whose failure is dropped.
\<close>

theorem media_download_failure_sends_marker:
  assumes "enabled s" and "truthy (opt_field revokedKey remoteJid)"
    and "getByRevokedKey revokedKey now (cache s) = (Some rc, c')"
    and "detectMediaKind (getContentType h) (message (container rc)) = Some kd"
    and "isl (downloadMediaMessage h now (container rc))"
  shows "handleRevoke h opts revokedKey revokerJid now s =
           (Inr (),
            s\<lparr>cache := c',
              sent := sent s @
                one_send h (sent s) (targetJid_of s revokedKey)
                  (Text (notice_of h opts revokedKey revokerJid now @ MEDIA_NOT_RESTORED))\<rparr>)
         \<and> (\<forall>jid c s0. safeSend h jid c s0 =
                (Inr (), s0\<lparr>sent := sent s0 @ one_send h (sent s0) jid c\<rparr>))"
  using assms(4,5)
  by (simp add: handleRevoke_lookup [OF assms(1-3)] dispatch_def safeSend_result
      call_download_throws)

text \<open>
  An image with caption \<open>pic\<close> is archived and revoked on a host whose download throws:
  the one send is the notice with the marker.
\<close>

theorem media_download_failure_sends_marker_witness:
  "handleRevoke quiet_host plain_options (chat_key ''C1'' ''M2'' '''') None 5
     (archive [observed ''C1'' ''M2'' '''' (image_message ''pic'')]) =
   (Inr (),
    (archive [observed ''C1'' ''M2'' '''' (image_message ''pic'')])
      \<lparr>sent :=
         [Attempt Channel ''C1''
            (Text (notice_of quiet_host plain_options (chat_key ''C1'' ''M2'' '''') None 5
                   @ MEDIA_NOT_RESTORED)) True]\<rparr>)"
proof -
  let ?s = "archive [observed ''C1'' ''M2'' '''' (image_message ''pic'')]"
  let ?rc = "\<lparr>ref = 0, at = 0, container = observed ''C1'' ''M2'' '''' (image_message ''pic''),
              authorJid = Some ''C1''\<rparr>"
  have 1: "enabled ?s"
    by (simp add: fixture_defs run_defs)
  have 2: "truthy (opt_field (chat_key ''C1'' ''M2'' '''') remoteJid)"
    by (simp add: fixture_defs run_defs)
  have 3: "getByRevokedKey (chat_key ''C1'' ''M2'' '''') 5 (cache ?s) = (Some ?rc, cache ?s)"
    by (simp add: fixture_defs run_defs)
  have 4: "detectMediaKind (getContentType quiet_host) (message (container ?rc)) = Some ''image''"
    by (simp add: fixture_defs detectMediaKind_def)
  have 5: "isl (downloadMediaMessage quiet_host 5 (container ?rc))"
    by (simp add: quiet_host_def)
  have 6: "one_send quiet_host [] jid c = [Attempt Channel jid c True]" for jid c
    by (simp add: one_send_def quiet_host_def)
  have 7: "sent ?s = []" "targetJid_of ?s (chat_key ''C1'' ''M2'' '''') = ''C1''"
    by (simp_all add: fixture_defs run_defs targetJid_of_def)
  show ?thesis
    using media_download_failure_sends_marker [OF 1 2 3 4 5, of plain_options None]
    by (simp add: 6 7)
qed

section \<open>Recovery of a text message\<close>




section \<open>The feature flag\<close>

lemma handleRevoke_disabled: "\<not> enabled s \<Longrightarrow> handleRevoke h opts k r now s = (Inr (), s)"
  by (simp add: handleRevoke_def returns_def)

lemma upsert_one_disabled: "\<not> enabled s \<Longrightarrow> upsert_one h opts tm s = (Inr (), s)"
  by (simp add: upsert_one_def try_catch_def handleRevoke_disabled returns_def Let_def)

lemma onUpsert_disabled: "\<not> enabled s \<Longrightarrow> onUpsert h opts tms s = (Inr (), s)"
  by (induction tms) (simp_all add: returns_def and_then_def upsert_one_disabled)

lemma fold_evict_one_frame:
  "ttlMs (fold evict_one vs c) = ttlMs c \<and> next_ref (fold evict_one vs c) = next_ref c"
  by (induction vs arbitrary: c) (simp_all add: evict_one_def)

lemma evictOldest_frame:
  "ttlMs (evictOldest n c) = ttlMs c" "next_ref (evictOldest n c) = next_ref c"
  by (simp_all add: evictOldest_def fold_evict_one_frame)

lemma add_frame: "ttlMs (add k cont a now c) = ttlMs c"
  by (simp add: add_def Let_def evictOldest_frame)

lemma strict_after_add:
  "map_of (strictMap (add k cont a now c)) (strict (makeKeys k)) =
     Some \<lparr>ref = next_ref c, at = now, container = cont, authorJid = a\<rparr>"
  by (simp add: add_def Let_def evictOldest_frame update_conv')

lemma lookup_after_add:
  assumes "now' - now \<le> ttlMs c"
  shows "getByRevokedKey k now' (add k cont a now c) =
           (Some \<lparr>ref = next_ref c, at = now, container = cont, authorJid = a\<rparr>,
            add k cont a now c)"
  using assms by (simp add: getByRevokedKey_def Let_def strict_after_add add_frame)

lemma upsert_one_archives:
  assumes "enabled s" and "message m \<noteq> None"
    and "\<not> is_revoke (Option.bind (message m) protocolMessage)"
  shows "upsert_one h opts (now, m) s =
           (Inr (), s\<lparr>cache := add (key m) m
                        (js_or (opt_field (key m) participant) (opt_field (key m) remoteJid))
                        now (cache s)\<rparr>)"
  using assms
  by (cases "message m") (simp_all add: upsert_one_def try_catch_def returns_def Let_def)

text \<open>
  C6. While the flag is off, \<^verbatim>\<open>onUpsert\<close> changes nothing, whatever the batch holds: it
  inserts no record, calls no send primitive and returns. Turning the flag off leaves
  the cache as it was, so while it is off, and after it is turned on again, every lookup
  on the cache answers as it did before (a record cached before is found until it
  expires or is evicted). After the flag is turned on again, an observed message that
  carries a content and is not a revocation is archived, and a lookup of its key within
  the time to live finds that record.
\<close>

theorem disabled_is_inert:
  "onUpsert h opts tms (disable s) = (Inr (), disable s)
   \<and> (\<forall>k t. getByRevokedKey k t (cache (snd (onUpsert h opts tms (disable s))))
             = getByRevokedKey k t (cache s))
   \<and> (\<forall>k t. getByRevokedKey k t (cache (enable (snd (onUpsert h opts tms (disable s)))))
             = getByRevokedKey k t (cache s))
   \<and> (message m \<noteq> None \<and> \<not> is_revoke (Option.bind (message m) protocolMessage)
        \<and> now' - now \<le> ttlMs (cache s) \<longrightarrow>
       (\<exists>r. fst (getByRevokedKey (key m) now'
                   (cache (snd (onUpsert h opts [(now, m)] (enable (disable s)))))) = Some r
            \<and> container r = m \<and> at r = now))"
proof -
  have off: "onUpsert h opts tms (disable s) = (Inr (), disable s)"
    by (rule onUpsert_disabled) (simp add: disable_def)
  have on: "enabled (enable (disable s))" "cache (enable (disable s)) = cache s"
    by (simp_all add: enable_def disable_def)
  show ?thesis
    by (simp add: off and_then_def returns_def upsert_one_archives [OF on(1)] lookup_after_add)
       (simp add: enable_def disable_def lookup_after_add)
qed

text \<open>
  \<open>M1\<close> is archived, the flag is turned off and \<open>M2\<close> is observed: nothing changes, \<open>M1\<close>
  is still found and \<open>M2\<close> is not. Observed after the flag is turned on again, \<open>M2\<close> is found.
\<close>

theorem disabled_is_inert_witness:
  "onUpsert quiet_host plain_options [(1, observed ''C1'' ''M2'' '''' (text_message ''later''))]
     (disable (archive [observed ''C1'' ''M1'' '''' (text_message ''hello'')]))
     = (Inr (), disable (archive [observed ''C1'' ''M1'' '''' (text_message ''hello'')]))
   \<and> fst (getByRevokedKey (chat_key ''C1'' ''M1'' '''') 5
         (cache (snd (onUpsert quiet_host plain_options
                        [(1, observed ''C1'' ''M2'' '''' (text_message ''later''))]
                        (disable (archive [observed ''C1'' ''M1'' '''' (text_message ''hello'')]))))))
       = Some \<lparr>ref = 0, at = 0, container = observed ''C1'' ''M1'' '''' (text_message ''hello''),
                authorJid = Some ''C1''\<rparr>
   \<and> fst (getByRevokedKey (chat_key ''C1'' ''M2'' '''') 5
         (cache (snd (onUpsert quiet_host plain_options
                        [(1, observed ''C1'' ''M2'' '''' (text_message ''later''))]
                        (disable (archive [observed ''C1'' ''M1'' '''' (text_message ''hello'')]))))))
       = None
   \<and> (\<exists>r. fst (getByRevokedKey (chat_key ''C1'' ''M2'' '''') 5
               (cache (snd (onUpsert quiet_host plain_options
                        [(1, observed ''C1'' ''M2'' '''' (text_message ''later''))]
                        (enable (disable (archive [observed ''C1'' ''M1'' '''' (text_message ''hello'')]))))))) = Some r
          \<and> container r = observed ''C1'' ''M2'' '''' (text_message ''later'') \<and> at r = 1)"
proof -
  let ?s = "archive [observed ''C1'' ''M1'' '''' (text_message ''hello'')]"
  let ?m = "observed ''C1'' ''M2'' '''' (text_message ''later'')"
  have old: "fst (getByRevokedKey (chat_key ''C1'' ''M1'' '''') 5 (cache ?s))
       = Some \<lparr>ref = 0, at = 0, container = observed ''C1'' ''M1'' '''' (text_message ''hello''),
                authorJid = Some ''C1''\<rparr>"
    by (simp add: fixture_defs run_defs)
  have new: "fst (getByRevokedKey (chat_key ''C1'' ''M2'' '''') 5 (cache ?s)) = None"
    by (simp add: fixture_defs run_defs)
  have pre: "message ?m \<noteq> None" "\<not> is_revoke (Option.bind (message ?m) protocolMessage)"
    "5 - 1 \<le> ttlMs (cache ?s)" "key ?m = chat_key ''C1'' ''M2'' ''''"
    by (simp_all add: fixture_defs run_defs)
  show ?thesis
    using disabled_is_inert [of quiet_host plain_options "[(1, ?m)]" ?s ?m 5 1] old new pre
    by (simp del: onUpsert.simps add: disable_def)
qed

section \<open>Lookup: the three tiers\<close>






section \<open>Lookup of an expired record\<close>

lemma returned_record_is_fresh:
  "fst (getByRevokedKey k now c) = Some r \<Longrightarrow> now - at r \<le> ttlMs c"
  by (auto simp: getByRevokedKey_def Let_def split: option.splits if_splits)

text \<open>
  C1 says that a lookup which reaches an expired record returns a miss and leaves the
  record in none of the three indexes. The first half holds
  (\<open>returned_record_is_fresh\<close>); the second does not hold for a hit through a fallback
  key. A record is inserted at time 0 under chat \<open>C1\<close>, id \<open>M1\<close> and an empty participant,
  with a time to live of 1000 ms. At time 2000 a lookup with participant \<open>P9\<close> reaches it
  through the loose key. The lookup returns a miss and deletes the entries under the keys
  of the lookup: the loose and the id-only entry go, but the strict entry of the record
  is stored under another key and stays, so the expired record is still reachable
  through \<^verbatim>\<open>strictMap\<close>.
\<close>

theorem expired_loose_hit_keeps_strict_entry:
  "getByRevokedKey (chat_key ''C1'' ''M1'' ''P9'') 2000
     (add (chat_key ''C1'' ''M1'' '''') (observed ''C1'' ''M1'' '''' (text_message ''hello''))
        (Some ''C1'') 0 (new_cache 1000)) =
   (None,
    \<lparr>ttlMs = 1000,
     strictMap = [(''C1|M1|'',
                   \<lparr>ref = 0, at = 0,
                    container = observed ''C1'' ''M1'' '''' (text_message ''hello''),
                    authorJid = Some ''C1''\<rparr>)],
     looseMap = [], idMap = [], next_ref = 1\<rparr>)"
  by (simp add: fixture_defs run_defs)

section \<open>Content resolution\<close>

declare resolveContentNode.simps(2) [simp del]

declare wrappers.simps(2) [simp del]

lemma resolve_ephemeral:
  "resolveContentNode g (Some (ephemeral m)) = resolveContentNode g (Some m)"
  by (subst resolveContentNode.simps(2)) (simp add: ephemeral_def)

lemma resolve_plain:
  "no_wrapper m \<Longrightarrow> resolveContentNode g (Some m) = (Some m, g m)"
  by (simp add: resolveContentNode.simps(2) no_wrapper_def)

lemma resolve_result:
  "case resolveContentNode g mo of
     (None, ty) \<Rightarrow> ty = None
   | (Some node, ty) \<Rightarrow> no_wrapper node \<and> ty = g node"
  by (induction g mo rule: resolveContentNode.induct)
     (auto simp: no_wrapper_def resolveContentNode.simps(2) split: option.splits)

lemma resolve_nest: "resolveContentNode g (Some (nest n m)) = resolveContentNode g (Some m)"
  by (induction n) (simp_all add: resolve_ephemeral)

lemma wrappers_plain: "no_wrapper m \<Longrightarrow> wrappers (Some m) = 0"
  by (simp add: wrappers.simps(2) no_wrapper_def)

lemma wrappers_ephemeral: "wrappers (Some (ephemeral m)) = Suc (wrappers (Some m))"
  by (subst wrappers.simps(2)) (simp add: ephemeral_def)

lemma wrappers_nest: "wrappers (Some (nest n m)) = n + wrappers (Some m)"
  by (induction n) (simp_all add: wrappers_ephemeral)

lemma resolve_on_stack:
  "resolveContentNode_on_stack frames g mo =
     (if wrappers mo < frames then Inr (resolveContentNode g mo) else Inl RangeError)"
proof (induction frames arbitrary: mo)
  case 0
  then show ?case by simp
next
  case (Suc frames)
  show ?case
  proof (cases mo)
    case None
    then show ?thesis by simp
  next
    case (Some m)
    then show ?thesis
      by (simp add: Suc resolveContentNode.simps(2) wrappers.simps(2) split: option.splits)
  qed
qed

text \<open>
  C2, as the claim states it, fails: the resolver has no depth bound beyond which it
  treats the content as unsupported. A text message inside 1000 ephemeral wrappers
  resolves to the text message, also on a call stack with room for 10000 nested calls.
\<close>

theorem deep_nesting_still_resolves:
  "fst (resolveContentNode (getContentType quiet_host) (Some (nest 1000 (text_message ''hi''))))
     = Some (text_message ''hi'')
   \<and> resolveContentNode_on_stack 10000 (getContentType quiet_host)
       (Some (nest 1000 (text_message ''hi'')))
     = Inr (Some (text_message ''hi''), None)"
proof -
  have plain: "no_wrapper (text_message ''hi'')"
    by (simp add: no_wrapper_def text_message_def)
  have "wrappers (Some (nest 1000 (text_message ''hi''))) = 1000"
    by (simp add: wrappers_nest wrappers_plain [OF plain])
  then show ?thesis
    by (simp add: resolve_on_stack resolve_nest resolve_plain [OF plain] quiet_host_def)
qed

text \<open>
  C2, amended. On every envelope (a finite tree) and every call stack the resolver
  terminates: it returns or it throws. An absent message resolves to a null node and a
  null type. A node with no wrapper field resolves to itself, with its content type. A
  node with a wrapper field resolves to what the nested message of the first populated
  wrapper resolves to, in the order ephemeral, view-once, view-once v2, view-once v2
  extension. So a result is a null node with a null type or a node without a wrapper
  field. The resolver has no depth bound of its own and treats no depth as unsupported:
  when the stack has room for more nested calls than the envelope has wrapper levels,
  the call returns that result, whatever the number of levels; when it has not, the call
  throws a \<^verbatim>\<open>RangeError\<close>. \<open>wrappers\<close> counts the levels: none for an absent message or a node
  without a wrapper field, and \<open>n\<close> more for \<open>n\<close> more ephemeral wrappers.
\<close>

theorem resolve_unwraps_without_depth_bound:
  "resolveContentNode g None = (None, None)
   \<and> (no_wrapper m \<longrightarrow> resolveContentNode g (Some m) = (Some m, g m))
   \<and> (ephemeralMessage m = Some w \<longrightarrow>
        resolveContentNode g (Some m) = resolveContentNode g (inner w))
   \<and> (ephemeralMessage m = None \<and> viewOnceMessage m = Some w \<longrightarrow>
        resolveContentNode g (Some m) = resolveContentNode g (inner w))
   \<and> (ephemeralMessage m = None \<and> viewOnceMessage m = None \<and> viewOnceMessageV2 m = Some w \<longrightarrow>
        resolveContentNode g (Some m) = resolveContentNode g (inner w))
   \<and> (ephemeralMessage m = None \<and> viewOnceMessage m = None \<and> viewOnceMessageV2 m = None
        \<and> viewOnceMessageV2Extension m = Some w \<longrightarrow>
        resolveContentNode g (Some m) = resolveContentNode g (inner w))
   \<and> (case resolveContentNode g mo of
        (None, ty) \<Rightarrow> ty = None
      | (Some node, ty) \<Rightarrow> no_wrapper node \<and> ty = g node)
   \<and> resolveContentNode_on_stack frames g mo =
        (if wrappers mo < frames then Inr (resolveContentNode g mo) else Inl RangeError)
   \<and> wrappers None = 0
   \<and> (no_wrapper m \<longrightarrow> wrappers (Some m) = 0)
   \<and> wrappers (Some (nest n m)) = n + wrappers (Some m)"
proof -
  have wrapped: "resolveContentNode g (Some m) = resolveContentNode g (inner w)"
    if "ephemeralMessage m = Some w
        \<or> ephemeralMessage m = None \<and> viewOnceMessage m = Some w
        \<or> ephemeralMessage m = None \<and> viewOnceMessage m = None
            \<and> viewOnceMessageV2 m = Some w
        \<or> ephemeralMessage m = None \<and> viewOnceMessage m = None
            \<and> viewOnceMessageV2 m = None \<and> viewOnceMessageV2Extension m = Some w"
    using that by (auto simp: resolveContentNode.simps(2))
  show ?thesis
    using resolve_result [of g mo] wrapped
    by (simp add: resolve_on_stack resolve_plain wrappers_plain wrappers_nest)
qed

text \<open>
  A text message is wrapped in a view-once v2 extension wrapper, that in a view-once v2
  wrapper, that in a view-once wrapper and that in an ephemeral wrapper. Each level
  resolves to the next and the text message to itself; on a stack with room for five
  nested calls the resolver returns the text message, with room for four it throws.
\<close>

theorem resolve_unwraps_without_depth_bound_witness:
  "resolveContentNode (getContentType quiet_host)
       (Some (ephemeral (view_once (view_once_v2 (view_once_v2_extension (text_message ''hi''))))))
     = (Some (text_message ''hi''), None)
   \<and> resolveContentNode_on_stack 5 (getContentType quiet_host)
       (Some (ephemeral (view_once (view_once_v2 (view_once_v2_extension (text_message ''hi''))))))
     = Inr (Some (text_message ''hi''), None)
   \<and> resolveContentNode_on_stack 4 (getContentType quiet_host)
       (Some (ephemeral (view_once (view_once_v2 (view_once_v2_extension (text_message ''hi''))))))
     = Inl RangeError"
proof -
  let ?g = "getContentType quiet_host"
  let ?t = "text_message ''hi''"
  let ?x = "view_once_v2_extension ?t"
  let ?v = "view_once_v2 ?x"
  let ?o = "view_once ?v"
  let ?e = "ephemeral ?o"
  note T = resolve_unwraps_without_depth_bound
  have plain: "no_wrapper ?t"
    by (simp add: no_wrapper_def text_message_def)
  have x: "ephemeralMessage ?x = None \<and> viewOnceMessage ?x = None \<and> viewOnceMessageV2 ?x = None
        \<and> viewOnceMessageV2Extension ?x = Some (FutureProof (Some ?t))"
    by (simp add: view_once_v2_extension_def)
  have v: "ephemeralMessage ?v = None \<and> viewOnceMessage ?v = None
        \<and> viewOnceMessageV2 ?v = Some (FutureProof (Some ?x))"
    by (simp add: view_once_v2_def)
  have o: "ephemeralMessage ?o = None \<and> viewOnceMessage ?o = Some (FutureProof (Some ?v))"
    by (simp add: view_once_def)
  have e: "ephemeralMessage ?e = Some (FutureProof (Some ?o))"
    by (simp add: ephemeral_def)
  have r0: "resolveContentNode ?g (Some ?t) = (Some ?t, ?g ?t)"
    using T [of ?g ?t] plain by blast
  have r1: "resolveContentNode ?g (Some ?x) = resolveContentNode ?g (Some ?t)"
    using T [of ?g ?x "FutureProof (Some ?t)"] x by simp
  have r2: "resolveContentNode ?g (Some ?v) = resolveContentNode ?g (Some ?x)"
    using T [of ?g ?v "FutureProof (Some ?x)"] v by simp
  have r3: "resolveContentNode ?g (Some ?o) = resolveContentNode ?g (Some ?v)"
    using T [of ?g ?o "FutureProof (Some ?v)"] o by simp
  have r4: "resolveContentNode ?g (Some ?e) = resolveContentNode ?g (Some ?o)"
    using T [of ?g ?e "FutureProof (Some ?o)"] e by simp
  have res: "resolveContentNode ?g (Some ?e) = (Some ?t, None)"
    unfolding r4 r3 r2 r1 r0 by (simp add: quiet_host_def)
  have "wrappers (Some ?t) = 0"
    using T [of ?g ?t] plain by blast
  then have depth: "wrappers (Some ?e) = 4"
    by (simp add: wrappers.simps(2) [of ?e] wrappers.simps(2) [of ?o] wrappers.simps(2) [of ?v]
        wrappers.simps(2) [of ?x] e o v x)
  have "resolveContentNode_on_stack frames ?g (Some ?e) =
          (if wrappers (Some ?e) < frames then Inr (resolveContentNode ?g (Some ?e))
           else Inl RangeError)" for frames
    using T [of ?g ?t _ "Some ?e" frames] by blast
  from this [of 5] this [of 4] res depth show ?thesis
    by simp
qed


section \<open>Capacity eviction\<close>

lemma length_refs [simp]: "length (refs m) = length m"
  by (simp add: refs_def)

lemma unlink_filter: "unlink v m = filter (\<lambda>e. ref (snd e) \<noteq> ref v) m"
  by (simp add: unlink_def case_prod_unfold)

lemma fold_evict_one_maps:
  "strictMap (fold evict_one vs c) = filter (\<lambda>e. ref (snd e) \<notin> ref ` set vs) (strictMap c)"
  "looseMap (fold evict_one vs c) = filter (\<lambda>e. ref (snd e) \<notin> ref ` set vs) (looseMap c)"
  "idMap (fold evict_one vs c) = filter (\<lambda>e. ref (snd e) \<notin> ref ` set vs) (idMap c)"
  by (induction vs arbitrary: c; simp add: evict_one_def unlink_filter conj_commute)+

lemma evictOldest_maps:
  "strictMap (evictOldest n c) = filter (\<lambda>e. ref (snd e) \<notin> ref ` set (oldest n c)) (strictMap c)"
  "looseMap (evictOldest n c) = filter (\<lambda>e. ref (snd e) \<notin> ref ` set (oldest n c)) (looseMap c)"
  "idMap (evictOldest n c) = filter (\<lambda>e. ref (snd e) \<notin> ref ` set (oldest n c)) (idMap c)"
  by (simp_all add: evictOldest_def fold_evict_one_maps)

lemma refs_filter: "refs (filter (\<lambda>e. ref (snd e) \<notin> A) m) = filter (\<lambda>i. i \<notin> A) (refs m)"
  by (simp add: refs_def filter_map comp_def)

lemma oldest_subset: "set (oldest n c) \<subseteq> snd ` set (strictMap c)"
  by (auto simp: oldest_def Let_def dest: in_set_takeD)

lemma length_oldest: "length (oldest n c) = min n (length (strictMap c))"
  by (simp add: oldest_def Let_def)

lemma distinct_map_sort_key:
  "distinct (map g (sort_key f xs)) = distinct (map g xs)"
  by (simp add: distinct_map)

lemma distinct_refs_oldest:
  assumes "distinct (refs (strictMap c))"
  shows "distinct (map ref (oldest n c))"
proof -
  have "distinct (map ref (map snd (strictMap c)))"
    using assms by (simp add: refs_def comp_def)
  then have "distinct (map ref (sort_key at (map snd (strictMap c))))"
    by (simp only: distinct_map_sort_key)
  then show ?thesis
    by (simp add: oldest_def Let_def take_map [symmetric] distinct_take del: take_map)
qed

lemma oldest_are_oldest:
  assumes "v \<in> set (oldest n c)" and "e \<in> set (strictMap c)"
    and "ref (snd e) \<notin> ref ` set (oldest n c)"
  shows "at v \<le> at (snd e)"
proof -
  let ?arr = "sort_key at (map snd (strictMap c))"
  let ?n = "min n (length ?arr)"
  have "sorted (map at (take ?n ?arr @ drop ?n ?arr))"
    by (simp only: append_take_drop_id sorted_sort_key)
  then have le: "\<forall>x \<in> set (take ?n ?arr). \<forall>y \<in> set (drop ?n ?arr). at x \<le> at y"
    by (simp add: sorted_append del: append_take_drop_id)
  have "snd e \<in> set ?arr"
    using assms(2) by simp
  then have "snd e \<in> set (take ?n ?arr) \<union> set (drop ?n ?arr)"
    by (metis append_take_drop_id set_append)
  moreover have "snd e \<notin> set (take ?n ?arr)"
    using assms(3) by (auto simp: oldest_def Let_def)
  ultimately have "snd e \<in> set (drop ?n ?arr)"
    by simp
  moreover have "v \<in> set (take ?n ?arr)"
    using assms(1) by (simp add: oldest_def Let_def)
  ultimately show ?thesis
    using le by blast
qed

lemma length_filter_notin:
  assumes "distinct (xs :: nat list)" and "A \<subseteq> set xs"
  shows "length (filter (\<lambda>i. i \<notin> A) xs) = length xs - card A"
proof -
  have "length (filter (\<lambda>i. i \<notin> A) xs) = card (set (filter (\<lambda>i. i \<notin> A) xs))"
    using assms(1) distinct_card [of "filter (\<lambda>i. i \<notin> A) xs"] by simp
  also have "set (filter (\<lambda>i. i \<notin> A) xs) = set xs - A"
    by auto
  also have "card (set xs - A) = card (set xs) - card A"
    using assms(2) by (simp add: card_Diff_subset finite_subset)
  also have "card (set xs) = length xs"
    using assms(1) by (simp add: distinct_card)
  finally show ?thesis .
qed

lemma length_le_of_refs_subset:
  assumes "distinct (refs m)" and "set (refs m) \<subseteq> set (refs m')"
  shows "length m \<le> length m'"
proof -
  have "length m = card (set (refs m))"
    using assms(1) by (simp add: distinct_card)
  also have "\<dots> \<le> card (set (refs m'))"
    using assms(2) by (simp add: card_mono)
  also have "\<dots> \<le> length (refs m')"
    by (rule card_length)
  finally show ?thesis by simp
qed

lemma evictOldest_strict_length:
  assumes "distinct (refs (strictMap c))"
  shows "length (strictMap (evictOldest n c)) = length (strictMap c) - min n (length (strictMap c))"
proof -
  have sub: "ref ` set (oldest n c) \<subseteq> set (refs (strictMap c))"
    using oldest_subset [of n c] by (auto simp: refs_def)
  have "card (ref ` set (oldest n c)) = length (oldest n c)"
    using distinct_refs_oldest [OF assms, of n]
    by (metis distinct_card length_map set_map)
  then show ?thesis
    using length_filter_notin [OF assms sub]
    by (simp add: evictOldest_maps refs_filter [symmetric] length_oldest del: length_refs)
       (simp add: length_refs [symmetric] refs_filter del: length_refs)
qed

lemma evictOldest_other_length:
  "length (looseMap (evictOldest n c)) \<le> length (looseMap c)"
  "length (idMap (evictOldest n c)) \<le> length (idMap c)"
  by (simp_all add: evictOldest_maps)

lemma update_fresh: "k \<notin> fst ` set m \<Longrightarrow> AList.update k v m = m @ [(k, v)]"
  by (induction m) auto

lemma refs_update_subset: "set (refs (AList.update k r m)) \<subseteq> insert (ref r) (set (refs m))"
  by (induction m) (auto simp: refs_def)

lemma refs_update_distinct:
  "distinct (refs m) \<Longrightarrow> ref r \<notin> set (refs m) \<Longrightarrow> distinct (refs (AList.update k r m))"
proof (induction m)
  case Nil
  then show ?case by (simp add: refs_def)
next
  case (Cons e m)
  have "set (refs (AList.update k r m)) \<subseteq> insert (ref r) (set (refs m))"
    by (rule refs_update_subset)
  with Cons show ?case
    by (auto simp: refs_def)
qed

lemma length_update_le: "length (AList.update k v m) \<le> Suc (length m)"
  by (induction m) auto

lemma cache_inv_new: "cache_inv (new_cache ttl)"
  by (simp add: cache_inv_def new_cache_def refs_def)

lemma cache_inv_evictOldest: "cache_inv c \<Longrightarrow> cache_inv (evictOldest n c)"
  by (auto simp: cache_inv_def evictOldest_maps refs_filter evictOldest_frame)

lemma cache_inv_sizes:
  assumes "cache_inv c"
  shows "length (looseMap c) \<le> length (strictMap c)" "length (idMap c) \<le> length (strictMap c)"
  using assms by (auto simp: cache_inv_def intro: length_le_of_refs_subset)

lemma add_made_room:
  "add k cont a now c =
     (made_room c)
       \<lparr>strictMap := AList.update (strict (makeKeys k))
            \<lparr>ref = next_ref c, at = now, container = cont, authorJid = a\<rparr> (strictMap (made_room c)),
        looseMap := AList.update (loose (makeKeys k))
            \<lparr>ref = next_ref c, at = now, container = cont, authorJid = a\<rparr> (looseMap (made_room c)),
        idMap := (if idOnly (makeKeys k) \<noteq> []
                  then AList.update (idOnly (makeKeys k))
                         \<lparr>ref = next_ref c, at = now, container = cont, authorJid = a\<rparr>
                         (idMap (made_room c))
                  else idMap (made_room c)),
        next_ref := Suc (next_ref c)\<rparr>"
  by (simp add: add_def made_room_def Let_def evictOldest_frame)

lemma cache_inv_made_room: "cache_inv c \<Longrightarrow> cache_inv (made_room c)"
  by (simp add: made_room_def cache_inv_evictOldest)

lemma made_room_frame: "next_ref (made_room c) = next_ref c"
  by (simp add: made_room_def evictOldest_frame)

lemma made_room_keys: "fst ` set (strictMap (made_room c)) \<subseteq> fst ` set (strictMap c)"
  by (auto simp: made_room_def evictOldest_maps)

lemma cache_inv_add:
  assumes "cache_inv c" and "strict (makeKeys k) \<notin> fst ` set (strictMap c)"
  shows "cache_inv (add k cont a now c)"
proof -
  let ?r = "\<lparr>ref = next_ref c, at = now, container = cont, authorJid = a\<rparr>"
  let ?c = "made_room c"
  have inv: "cache_inv ?c"
    using assms(1) by (rule cache_inv_made_room)
  have fresh_key: "strict (makeKeys k) \<notin> fst ` set (strictMap ?c)"
    using assms(2) made_room_keys [of c] by blast
  have below: "\<forall>i \<in> set (refs (strictMap ?c)). i < next_ref c"
    using inv by (simp add: cache_inv_def made_room_frame)
  then have new_S: "ref ?r \<notin> set (refs (strictMap ?c))"
    by auto
  with inv have new_L: "ref ?r \<notin> set (refs (looseMap ?c))" and new_I: "ref ?r \<notin> set (refs (idMap ?c))"
    by (auto simp: cache_inv_def)
  have S: "refs (AList.update (strict (makeKeys k)) ?r (strictMap ?c)) = refs (strictMap ?c) @ [next_ref c]"
    by (simp add: update_fresh [OF fresh_key] refs_def)
  have L: "set (refs (AList.update (loose (makeKeys k)) ?r (looseMap ?c)))
             \<subseteq> insert (next_ref c) (set (refs (looseMap ?c)))"
    using refs_update_subset [of "loose (makeKeys k)" ?r] by simp
  have I: "set (refs (AList.update (idOnly (makeKeys k)) ?r (idMap ?c)))
             \<subseteq> insert (next_ref c) (set (refs (idMap ?c)))"
    using refs_update_subset [of "idOnly (makeKeys k)" ?r] by simp
  have dL: "distinct (refs (AList.update (loose (makeKeys k)) ?r (looseMap ?c)))"
    using inv new_L by (intro refs_update_distinct) (simp_all add: cache_inv_def)
  have dI: "distinct (refs (AList.update (idOnly (makeKeys k)) ?r (idMap ?c)))"
    using inv new_I by (intro refs_update_distinct) (simp_all add: cache_inv_def)
  show ?thesis
    unfolding add_made_room cache_inv_def
    using inv new_S below L I dL dI
    by (auto simp: S cache_inv_def less_Suc_eq)
qed

lemma add_keys:
  "fst ` set (strictMap (add k cont a now c)) \<subseteq> insert (strict (makeKeys k)) (fst ` set (strictMap c))"
  using made_room_keys [of c] by (auto simp: add_made_room dom_update)

lemma total_size_add_le: "total_size (add k cont a now c) \<le> total_size (made_room c) + 3"
proof -
  have "length (AList.update x v m) \<le> Suc (length m)" for x v and m :: index
    by (rule length_update_le)
  note le = this [of "strict (makeKeys k)" _ "strictMap (made_room c)"]
    this [of "loose (makeKeys k)" _ "looseMap (made_room c)"]
    this [of "idOnly (makeKeys k)" _ "idMap (made_room c)"]
  show ?thesis
    unfolding add_made_room total_size_def
    using le [of "\<lparr>ref = next_ref c, at = now, container = cont, authorJid = a\<rparr>"]
    by (simp split: if_splits)
qed

lemma total_size_made_room:
  assumes "cache_inv c" and "total_size c \<le> 3 * MAX_CACHE + 3"
  shows "total_size (made_room c) + 3 \<le> 3 * MAX_CACHE + 3"
    and "3 * MAX_CACHE < total_size c \<Longrightarrow> total_size (made_room c) + 3 < 3 * MAX_CACHE"
proof -
  have small: "total_size (made_room c) + 3 < 3 * MAX_CACHE" if over: "3 * MAX_CACHE < total_size c"
  proof -
    have "length (looseMap c) \<le> length (strictMap c)" "length (idMap c) \<le> length (strictMap c)"
      using assms(1) by (rule cache_inv_sizes)+
    with over have big: "EVICT_COUNT \<le> length (strictMap c)"
      by (simp add: total_size_def MAX_CACHE_def EVICT_COUNT_def)
    have "distinct (refs (strictMap c))"
      using assms(1) by (simp add: cache_inv_def)
    then have "length (strictMap (evictOldest EVICT_COUNT c)) = length (strictMap c) - EVICT_COUNT"
      using big by (simp add: evictOldest_strict_length)
    with big evictOldest_other_length [of EVICT_COUNT c] assms(2) over show ?thesis
      by (simp add: made_room_def total_size_def MAX_CACHE_def EVICT_COUNT_def)
  qed
  show "total_size (made_room c) + 3 \<le> 3 * MAX_CACHE + 3"
    using small assms(2) by (cases "3 * MAX_CACHE < total_size c") (simp_all add: made_room_def)
  show "3 * MAX_CACHE < total_size c \<Longrightarrow> total_size (made_room c) + 3 < 3 * MAX_CACHE"
    by (rule small)
qed

lemma add_all_snoc: "add_all (ins @ [(k, cont, a, now)]) c = add k cont a now (add_all ins c)"
  by (simp add: add_all_def)

lemma add_all_invariant:
  assumes "distinct (map strict_of ins)"
  shows "cache_inv (add_all ins (new_cache ttl))
         \<and> total_size (add_all ins (new_cache ttl)) \<le> 3 * MAX_CACHE + 3
         \<and> fst ` set (strictMap (add_all ins (new_cache ttl))) \<subseteq> set (map strict_of ins)"
  using assms
proof (induction ins rule: rev_induct)
  case Nil
  then show ?case
    by (simp add: add_all_def cache_inv_new) (simp add: new_cache_def total_size_def)
next
  case (snoc i ins)
  obtain k cont a now where i: "i = (k, cont, a, now)"
    by (cases i) auto
  let ?c = "add_all ins (new_cache ttl)"
  from snoc have IH: "cache_inv ?c" "total_size ?c \<le> 3 * MAX_CACHE + 3"
    "fst ` set (strictMap ?c) \<subseteq> set (map strict_of ins)"
    by simp_all
  from snoc.prems have "strict_of i \<notin> set (map strict_of ins)"
    by simp
  with IH(3) have fresh: "strict (makeKeys k) \<notin> fst ` set (strictMap ?c)"
    by (auto simp: i strict_of_def)
  have "cache_inv (add k cont a now ?c)"
    using IH(1) fresh by (rule cache_inv_add)
  moreover have "total_size (add k cont a now ?c) \<le> 3 * MAX_CACHE + 3"
    using total_size_add_le [of k cont a now ?c] total_size_made_room(1) [OF IH(1,2)] by linarith
  moreover have "fst ` set (strictMap (add k cont a now ?c)) \<subseteq> set (map strict_of (ins @ [i]))"
    using add_keys [of k cont a now ?c] IH(3) by (auto simp: i strict_of_def)
  ultimately show ?case
    by (simp add: i add_all_snoc)
qed

lemma evicted_gone_after_add:
  assumes "cache_inv c" and "3 * MAX_CACHE < total_size c" and "v \<in> set (oldest EVICT_COUNT c)"
  shows "ref v \<notin> set (refs (strictMap (add k cont a now c)))
             \<union> set (refs (looseMap (add k cont a now c)))
             \<union> set (refs (idMap (add k cont a now c)))"
proof -
  let ?r = "\<lparr>ref = next_ref c, at = now, container = cont, authorJid = a\<rparr>"
  let ?A = "ref ` set (oldest EVICT_COUNT c)"
  have room: "made_room c = evictOldest EVICT_COUNT c"
    using assms(2) by (simp add: made_room_def mult.commute)
  have "ref v \<in> set (refs (strictMap c))"
    using assms(3) oldest_subset [of EVICT_COUNT c] by (auto simp: refs_def)
  with assms(1) have "ref v \<noteq> ref ?r"
    by (auto simp: cache_inv_def)
  moreover have "ref v \<notin> set (refs (m (evictOldest EVICT_COUNT c)))"
    if "m = strictMap \<or> m = looseMap \<or> m = idMap" for m
    using that assms(3) by (auto simp: evictOldest_maps refs_filter)
  moreover have "set (refs (AList.update x ?r m)) \<subseteq> insert (ref ?r) (set (refs m))" for x m
    by (rule refs_update_subset)
  ultimately show ?thesis
    unfolding add_made_room room by (auto split: if_splits)
qed

lemma add_evicting:
  assumes "3 * MAX_CACHE < total_size c" and "strict (makeKeys k) \<notin> fst ` set (strictMap c)"
  shows "add k cont a now c =
     c\<lparr>strictMap := filter (\<lambda>e. ref (snd e) \<notin> ref ` set (oldest EVICT_COUNT c)) (strictMap c)
            @ [(strict (makeKeys k),
                \<lparr>ref = next_ref c, at = now, container = cont, authorJid = a\<rparr>)],
       looseMap := AList.update (loose (makeKeys k))
            \<lparr>ref = next_ref c, at = now, container = cont, authorJid = a\<rparr>
            (filter (\<lambda>e. ref (snd e) \<notin> ref ` set (oldest EVICT_COUNT c)) (looseMap c)),
       idMap := (if idOnly (makeKeys k) \<noteq> []
                 then AList.update (idOnly (makeKeys k))
                        \<lparr>ref = next_ref c, at = now, container = cont, authorJid = a\<rparr>
                        (filter (\<lambda>e. ref (snd e) \<notin> ref ` set (oldest EVICT_COUNT c)) (idMap c))
                 else filter (\<lambda>e. ref (snd e) \<notin> ref ` set (oldest EVICT_COUNT c)) (idMap c)),
       next_ref := Suc (next_ref c)\<rparr>"
proof -
  have room: "made_room c = evictOldest EVICT_COUNT c"
    using assms(1) by (simp add: made_room_def mult.commute)
  have "strict (makeKeys k) \<notin> fst ` set (strictMap (evictOldest EVICT_COUNT c))"
    using assms(2) made_room_keys [of c] unfolding room by blast
  note fresh = update_fresh [OF this]
  show ?thesis
    unfolding add_made_room room
    by (rule message_cache.equality)
       (simp_all add: fresh evictOldest_frame, simp_all add: evictOldest_maps)
qed

lemma add_not_evicting:
  assumes "total_size c \<le> 3 * MAX_CACHE" and "strict (makeKeys k) \<notin> fst ` set (strictMap c)"
  shows "add k cont a now c =
     c\<lparr>strictMap := strictMap c
            @ [(strict (makeKeys k),
                \<lparr>ref = next_ref c, at = now, container = cont, authorJid = a\<rparr>)],
       looseMap := AList.update (loose (makeKeys k))
            \<lparr>ref = next_ref c, at = now, container = cont, authorJid = a\<rparr> (looseMap c),
       idMap := (if idOnly (makeKeys k) \<noteq> []
                 then AList.update (idOnly (makeKeys k))
                        \<lparr>ref = next_ref c, at = now, container = cont, authorJid = a\<rparr> (idMap c)
                 else idMap c),
       next_ref := Suc (next_ref c)\<rparr>"
proof -
  have room: "made_room c = c"
    using assms(1) by (simp add: made_room_def mult.commute)
  show ?thesis
    unfolding add_made_room room by (simp add: update_fresh [OF assms(2)])
qed

text \<open>
  C3. Records with pairwise distinct strict keys are inserted into a new cache, one after
  the other; \<open>c\<close> is the cache before one of these inserts, \<open>c'\<close> the cache after it and
  \<open>r\<close> the record the insert creates. The three indexes never hold more than
  \<open>3 * MAX_CACHE + 3\<close> entries together.

  When \<open>c\<close> holds more than \<open>3 * MAX_CACHE\<close> entries, the insert evicts exactly
  \<open>EVICT_COUNT\<close> (1500, the ceiling of 30 percent of 5000) records. The victims are
  \<open>EVICT_COUNT\<close> different records of the strict index of \<open>c\<close>; they are the oldest by
  insertion time (no record that stays is older than one that goes); none of them is
  left in any of the three indexes of \<open>c'\<close>. Nothing else goes: \<open>c'\<close> is \<open>c\<close> with, in each
  index, exactly the entries that point to a victim removed, every other entry kept in
  its place, and then \<open>r\<close> installed under the keys of the insert (appended to the strict
  index, whose keys are all different from the new one). The strict index of \<open>c'\<close> has
  \<open>EVICT_COUNT\<close> entries fewer than that of \<open>c\<close> and one more, and \<open>c'\<close> holds fewer than
  \<open>3 * MAX_CACHE\<close> entries again.

  When \<open>c\<close> holds at most \<open>3 * MAX_CACHE\<close> entries, the insert evicts nothing: \<open>c'\<close> is \<open>c\<close>
  with \<open>r\<close> installed.
\<close>

theorem capacity_eviction:
  assumes "distinct (map strict_of (ins @ [(k, cont, a, now)]))"
  shows "let c = add_all ins (new_cache ttl);
             c' = add k cont a now c;
             victims = oldest EVICT_COUNT c;
             stays = (\<lambda>e. ref (snd e) \<notin> ref ` set victims);
             ks = makeKeys k;
             r = \<lparr>ref = next_ref c, at = now, container = cont, authorJid = a\<rparr> in
           total_size c \<le> 3 * MAX_CACHE + 3 \<and>
           total_size c' \<le> 3 * MAX_CACHE + 3 \<and>
           (3 * MAX_CACHE < total_size c \<longrightarrow>
              length victims = EVICT_COUNT \<and>
              distinct (map ref victims) \<and>
              set victims \<subseteq> snd ` set (strictMap c) \<and>
              (\<forall>v \<in> set victims. \<forall>e \<in> set (strictMap c). stays e \<longrightarrow> at v \<le> at (snd e)) \<and>
              (\<forall>v \<in> set victims.
                  ref v \<notin> set (refs (strictMap c')) \<union> set (refs (looseMap c'))
                            \<union> set (refs (idMap c'))) \<and>
              c' = c\<lparr>strictMap := filter stays (strictMap c) @ [(strict ks, r)],
                      looseMap := AList.update (loose ks) r (filter stays (looseMap c)),
                      idMap := (if idOnly ks \<noteq> []
                                then AList.update (idOnly ks) r (filter stays (idMap c))
                                else filter stays (idMap c)),
                      next_ref := Suc (next_ref c)\<rparr> \<and>
              length (strictMap c') = Suc (length (strictMap c) - EVICT_COUNT) \<and>
              total_size c' < 3 * MAX_CACHE) \<and>
           (total_size c \<le> 3 * MAX_CACHE \<longrightarrow>
              c' = c\<lparr>strictMap := strictMap c @ [(strict ks, r)],
                      looseMap := AList.update (loose ks) r (looseMap c),
                      idMap := (if idOnly ks \<noteq> [] then AList.update (idOnly ks) r (idMap c)
                                else idMap c),
                      next_ref := Suc (next_ref c)\<rparr>)"
proof -
  let ?c = "add_all ins (new_cache ttl)"
  let ?c' = "add k cont a now ?c"
  let ?victims = "oldest EVICT_COUNT ?c"
  let ?stays = "\<lambda>e. ref (snd e) \<notin> ref ` set ?victims"
  let ?r = "\<lparr>ref = next_ref ?c, at = now, container = cont, authorJid = a\<rparr>"
  from assms have d: "distinct (map strict_of ins)"
    by simp
  from add_all_invariant [OF d, of ttl]
  have inv: "cache_inv ?c" and size: "total_size ?c \<le> 3 * MAX_CACHE + 3"
    and keys: "fst ` set (strictMap ?c) \<subseteq> set (map strict_of ins)"
    by simp_all
  from assms have "strict (makeKeys k) \<notin> set (map strict_of ins)"
    by (simp add: strict_of_def)
  with keys have fresh: "strict (makeKeys k) \<notin> fst ` set (strictMap ?c)"
    by blast
  have size': "total_size ?c' \<le> 3 * MAX_CACHE + 3"
    using add_all_invariant [OF assms, of ttl] by (simp add: add_all_snoc)
  have dist: "distinct (refs (strictMap ?c))"
    using inv by (simp add: cache_inv_def)
  have evict: "length ?victims = EVICT_COUNT
      \<and> distinct (map ref ?victims)
      \<and> set ?victims \<subseteq> snd ` set (strictMap ?c)
      \<and> (\<forall>v \<in> set ?victims. \<forall>e \<in> set (strictMap ?c). ?stays e \<longrightarrow> at v \<le> at (snd e))
      \<and> (\<forall>v \<in> set ?victims.
            ref v \<notin> set (refs (strictMap ?c')) \<union> set (refs (looseMap ?c'))
                      \<union> set (refs (idMap ?c')))
      \<and> ?c' = ?c\<lparr>strictMap := filter ?stays (strictMap ?c) @ [(strict (makeKeys k), ?r)],
                   looseMap := AList.update (loose (makeKeys k)) ?r (filter ?stays (looseMap ?c)),
                   idMap := (if idOnly (makeKeys k) \<noteq> []
                             then AList.update (idOnly (makeKeys k)) ?r (filter ?stays (idMap ?c))
                             else filter ?stays (idMap ?c)),
                   next_ref := Suc (next_ref ?c)\<rparr>
      \<and> length (strictMap ?c') = Suc (length (strictMap ?c) - EVICT_COUNT)
      \<and> total_size ?c' < 3 * MAX_CACHE"
    if over: "3 * MAX_CACHE < total_size ?c"
  proof (intro conjI ballI impI)
    have "length (looseMap ?c) \<le> length (strictMap ?c)" "length (idMap ?c) \<le> length (strictMap ?c)"
      using inv by (rule cache_inv_sizes)+
    with over show len: "length ?victims = EVICT_COUNT"
      by (simp add: length_oldest total_size_def MAX_CACHE_def EVICT_COUNT_def)
    show "distinct (map ref ?victims)"
      using dist by (rule distinct_refs_oldest)
    show "set ?victims \<subseteq> snd ` set (strictMap ?c)"
      by (rule oldest_subset)
    show eq: "?c' = ?c\<lparr>strictMap := filter ?stays (strictMap ?c) @ [(strict (makeKeys k), ?r)],
                   looseMap := AList.update (loose (makeKeys k)) ?r (filter ?stays (looseMap ?c)),
                   idMap := (if idOnly (makeKeys k) \<noteq> []
                             then AList.update (idOnly (makeKeys k)) ?r (filter ?stays (idMap ?c))
                             else filter ?stays (idMap ?c)),
                   next_ref := Suc (next_ref ?c)\<rparr>"
      using over fresh by (rule add_evicting)
    have "length (strictMap (evictOldest EVICT_COUNT ?c))
            = length (strictMap ?c) - min EVICT_COUNT (length (strictMap ?c))"
      using dist by (rule evictOldest_strict_length)
    with len have "length (filter ?stays (strictMap ?c)) = length (strictMap ?c) - EVICT_COUNT"
      by (simp add: evictOldest_maps length_oldest)
    then show "length (strictMap ?c') = Suc (length (strictMap ?c) - EVICT_COUNT)"
      by (subst eq) simp
    show "total_size ?c' < 3 * MAX_CACHE"
      using total_size_add_le [of k cont a now ?c] total_size_made_room(2) [OF inv size over]
      by linarith
  next
    fix v e
    assume "v \<in> set ?victims" "e \<in> set (strictMap ?c)" "?stays e"
    then show "at v \<le> at (snd e)"
      by (rule oldest_are_oldest)
  next
    fix v
    assume "v \<in> set ?victims"
    with inv over show "ref v \<notin> set (refs (strictMap ?c')) \<union> set (refs (looseMap ?c'))
                      \<union> set (refs (idMap ?c'))"
      by (rule evicted_gone_after_add)
  qed
  have keep: "?c' = ?c\<lparr>strictMap := strictMap ?c @ [(strict (makeKeys k), ?r)],
                   looseMap := AList.update (loose (makeKeys k)) ?r (looseMap ?c),
                   idMap := (if idOnly (makeKeys k) \<noteq> []
                             then AList.update (idOnly (makeKeys k)) ?r (idMap ?c)
                             else idMap ?c),
                   next_ref := Suc (next_ref ?c)\<rparr>"
    if "total_size ?c \<le> 3 * MAX_CACHE"
    using that fresh by (rule add_not_evicting)
  show ?thesis
    unfolding Let_def using size size' evict keep by blast
qed

section \<open>A cache filled to the threshold\<close>

lemma nth_id_inj [simp]: "nth_id i = nth_id j \<longleftrightarrow> i = j"
  by (simp add: nth_id_def replicate_eq_replicate del: replicate_Suc replicate.simps)

lemma nth_strict_inj [simp]: "nth_strict i = nth_strict j \<longleftrightarrow> i = j"
  by (simp add: nth_strict_def)

lemma nth_loose_inj [simp]: "nth_loose i = nth_loose j \<longleftrightarrow> i = j"
  by (simp add: nth_loose_def)

lemma nth_id_nonempty [simp]: "nth_id i \<noteq> []"
  by (simp add: nth_id_def)

lemma makeKeys_nth_key:
  "makeKeys (nth_key n) = \<lparr>strict = nth_strict n, loose = nth_loose n, idOnly = nth_id n\<rparr>"
  by (simp add: makeKeys_def nth_key_def chat_key_def opt_field_def or_empty_def Let_def
      nth_strict_def nth_loose_def)

lemma fill_Suc: "fill (Suc n) = add (nth_key n) (nth_message n) (Some ''C1'') (int n) (fill n)"
  by (simp add: fill_def add_all_def nth_insert_def)

lemma total_size_filled: "total_size (filled n) = 3 * n"
  by (simp add: filled_def total_size_def)

lemma add_filled:
  assumes "n \<le> MAX_CACHE"
  shows "add (nth_key n) (nth_message n) (Some ''C1'') (int n) (filled n) = filled (Suc n)"
proof -
  have room: "made_room (filled n) = filled n"
    using assms by (simp add: made_room_def total_size_filled)
  have fresh:
    "nth_strict n \<notin> fst ` set (strictMap (filled n))"
    "nth_loose n \<notin> fst ` set (looseMap (filled n))"
    "nth_id n \<notin> fst ` set (idMap (filled n))"
    by (auto simp: filled_def)
  show ?thesis
    unfolding add_made_room room makeKeys_nth_key
    by (simp add: update_fresh [OF fresh(1)] update_fresh [OF fresh(2)] update_fresh [OF fresh(3)])
       (simp add: filled_def nth_record_def)
qed

lemma fill_filled: "n \<le> Suc MAX_CACHE \<Longrightarrow> fill n = filled n"
proof (induction n)
  case 0
  then show ?case
    by (simp add: fill_def add_all_def filled_def new_cache_def)
next
  case (Suc n)
  then show ?case
    by (simp add: fill_Suc add_filled)
qed

lemma oldest_filled: "oldest m (filled n) = map nth_record [0..<min m n]"
proof -
  have "sorted (map at (map nth_record [0..<n]))"
    by (simp add: sorted_map nth_record_def comp_def sorted_wrt_iff_nth_less)
  then have "sort_key at (map nth_record [0..<n]) = map nth_record [0..<n]"
    by (rule sort_key_id_if_sorted)
  then show ?thesis
    by (simp add: oldest_def filled_def comp_def take_map min_def)
qed

lemma distinct_strict_of_family: "distinct (map strict_of (map nth_insert [0..<n]))"
  by (simp add: distinct_map inj_on_def strict_of_def nth_insert_def makeKeys_nth_key comp_def)

lemma fill_full: "fill (Suc MAX_CACHE) = filled (Suc MAX_CACHE)"
  by (rule fill_filled) simp

lemma over_when_full: "3 * MAX_CACHE < total_size (fill (Suc MAX_CACHE))"
  by (simp add: fill_full total_size_filled)

lemma filter_upt_from: "filter (\<lambda>i. \<not> i < m) [0..<n] = [m..<n]"
  by (induction n) auto

lemma stays_filled:
  "filter (\<lambda>e. ref (snd e) \<notin> ref ` set (oldest m (filled n)))
       (map (\<lambda>i. (f i, nth_record i)) [0..<n])
     = map (\<lambda>i. (f i, nth_record i)) [min m n..<n]"
proof -
  have "(ref (nth_record i) \<notin> ref ` set (map nth_record [0..<k])) = (\<not> i < k)" for i k
    by (auto simp: nth_record_def image_iff)
  then show ?thesis
    unfolding oldest_filled filter_map comp_def snd_conv
    by (simp only: filter_upt_from)
qed

text \<open>
  After 5001 inserts of distinct messages the indexes hold 15003 entries. The next insert
  evicts 1500 records, the record of the first message among them, which is then in
  none of the three indexes. The records of the messages 1500 to 5000 stay, in their
  order, and the new record comes after them, in each index; that is fewer than 15000
  entries. After two inserts the indexes hold 6 entries, and the third insert evicts
  nothing: the cache then holds the three records.
\<close>

theorem capacity_eviction_witness:
  "3 * MAX_CACHE < total_size (fill (Suc MAX_CACHE))
   \<and> length (oldest EVICT_COUNT (fill (Suc MAX_CACHE))) = EVICT_COUNT
   \<and> nth_record 0 \<in> set (oldest EVICT_COUNT (fill (Suc MAX_CACHE)))
   \<and> ref (nth_record 0) \<notin>
         set (refs (strictMap (add (nth_key (Suc MAX_CACHE)) (nth_message (Suc MAX_CACHE))
                                 (Some ''C1'') (int (Suc MAX_CACHE)) (fill (Suc MAX_CACHE)))))
       \<union> set (refs (looseMap (add (nth_key (Suc MAX_CACHE)) (nth_message (Suc MAX_CACHE))
                                 (Some ''C1'') (int (Suc MAX_CACHE)) (fill (Suc MAX_CACHE)))))
       \<union> set (refs (idMap (add (nth_key (Suc MAX_CACHE)) (nth_message (Suc MAX_CACHE))
                                 (Some ''C1'') (int (Suc MAX_CACHE)) (fill (Suc MAX_CACHE)))))
   \<and> total_size (add (nth_key (Suc MAX_CACHE)) (nth_message (Suc MAX_CACHE)) (Some ''C1'')
                   (int (Suc MAX_CACHE)) (fill (Suc MAX_CACHE))) < 3 * MAX_CACHE
   \<and> add (nth_key (Suc MAX_CACHE)) (nth_message (Suc MAX_CACHE)) (Some ''C1'')
         (int (Suc MAX_CACHE)) (fill (Suc MAX_CACHE))
       = \<lparr>ttlMs = DEFAULT_TTL_MS,
          strictMap = map (\<lambda>i. (nth_strict i, nth_record i)) [EVICT_COUNT..<Suc (Suc MAX_CACHE)],
          looseMap = map (\<lambda>i. (nth_loose i, nth_record i)) [EVICT_COUNT..<Suc (Suc MAX_CACHE)],
          idMap = map (\<lambda>i. (nth_id i, nth_record i)) [EVICT_COUNT..<Suc (Suc MAX_CACHE)],
          next_ref = Suc (Suc MAX_CACHE)\<rparr>
   \<and> total_size (fill 2) \<le> 3 * MAX_CACHE
   \<and> add (nth_key 2) (nth_message 2) (Some ''C1'') 2 (fill 2) = filled 3"
proof -
  let ?n = "Suc MAX_CACHE"
  let ?c' = "add (nth_key ?n) (nth_message ?n) (Some ''C1'') (int ?n) (fill ?n)"
  let ?r = "\<lparr>ref = ?n, at = int ?n, container = nth_message ?n, authorJid = Some ''C1''\<rparr>"
  have "distinct (map strict_of (map nth_insert [0..<Suc ?n]))"
    by (rule distinct_strict_of_family)
  then have d: "distinct (map strict_of (map nth_insert [0..<?n]
                  @ [(nth_key ?n, nth_message ?n, Some ''C1'', int ?n)]))"
    by (simp add: nth_insert_def)
  have "0 < min EVICT_COUNT ?n"
    by (simp add: EVICT_COUNT_def)
  then have "0 \<in> set [0..<min EVICT_COUNT ?n]"
    by (simp del: upt_Suc)
  then have first: "nth_record 0 \<in> set (oldest EVICT_COUNT (fill ?n))"
    unfolding fill_full oldest_filled by (simp del: upt_Suc)
  note T = capacity_eviction [OF d, of DEFAULT_TTL_MS, folded fill_def, unfolded Let_def]
  from T over_when_full first
  have old: "3 * MAX_CACHE < total_size (fill ?n)
     \<and> length (oldest EVICT_COUNT (fill ?n)) = EVICT_COUNT
     \<and> nth_record 0 \<in> set (oldest EVICT_COUNT (fill ?n))
     \<and> ref (nth_record 0) \<notin> set (refs (strictMap ?c')) \<union> set (refs (looseMap ?c'))
         \<union> set (refs (idMap ?c'))
     \<and> total_size ?c' < 3 * MAX_CACHE"
    by blast
  have less: "EVICT_COUNT \<le> ?n"
    by (simp add: EVICT_COUNT_def MAX_CACHE_def)
  have least: "min EVICT_COUNT ?n = EVICT_COUNT"
    using less by simp
  have maps:
    "strictMap (filled ?n) = map (\<lambda>i. (nth_strict i, nth_record i)) [0..<?n]"
    "looseMap (filled ?n) = map (\<lambda>i. (nth_loose i, nth_record i)) [0..<?n]"
    "idMap (filled ?n) = map (\<lambda>i. (nth_id i, nth_record i)) [0..<?n]"
    "next_ref (filled ?n) = ?n"
    by (simp_all add: filled_def del: upt_Suc)
  have fresh:
    "nth_loose ?n \<notin> fst ` set (map (\<lambda>i. (nth_loose i, nth_record i)) [EVICT_COUNT..<?n])"
    "nth_id ?n \<notin> fst ` set (map (\<lambda>i. (nth_id i, nth_record i)) [EVICT_COUNT..<?n])"
    by (auto simp del: upt_Suc)
  have last: "[EVICT_COUNT..<Suc ?n] = [EVICT_COUNT..<?n] @ [?n]"
    using less by simp
  from T over_when_full
  have "?c' = (fill ?n)
      \<lparr>strictMap := filter (\<lambda>e. ref (snd e) \<notin> ref ` set (oldest EVICT_COUNT (fill ?n)))
                      (strictMap (fill ?n))
                    @ [(strict (makeKeys (nth_key ?n)),
                        \<lparr>ref = next_ref (fill ?n), at = int ?n, container = nth_message ?n,
                         authorJid = Some ''C1''\<rparr>)],
       looseMap := AList.update (loose (makeKeys (nth_key ?n)))
                     \<lparr>ref = next_ref (fill ?n), at = int ?n, container = nth_message ?n,
                      authorJid = Some ''C1''\<rparr>
                     (filter (\<lambda>e. ref (snd e) \<notin> ref ` set (oldest EVICT_COUNT (fill ?n)))
                       (looseMap (fill ?n))),
       idMap := (if idOnly (makeKeys (nth_key ?n)) \<noteq> []
                 then AList.update (idOnly (makeKeys (nth_key ?n)))
                     \<lparr>ref = next_ref (fill ?n), at = int ?n, container = nth_message ?n,
                      authorJid = Some ''C1''\<rparr>
                     (filter (\<lambda>e. ref (snd e) \<notin> ref ` set (oldest EVICT_COUNT (fill ?n)))
                       (idMap (fill ?n)))
                 else filter (\<lambda>e. ref (snd e) \<notin> ref ` set (oldest EVICT_COUNT (fill ?n)))
                       (idMap (fill ?n))),
       next_ref := Suc (next_ref (fill ?n))\<rparr>"
    by blast
  also have "\<dots> = \<lparr>ttlMs = DEFAULT_TTL_MS,
          strictMap = map (\<lambda>i. (nth_strict i, nth_record i)) [EVICT_COUNT..<Suc ?n],
          looseMap = map (\<lambda>i. (nth_loose i, nth_record i)) [EVICT_COUNT..<Suc ?n],
          idMap = map (\<lambda>i. (nth_id i, nth_record i)) [EVICT_COUNT..<Suc ?n],
          next_ref = Suc ?n\<rparr>"
    unfolding fill_full makeKeys_nth_key maps stays_filled least
    by (simp add: update_fresh [OF fresh(1)] update_fresh [OF fresh(2)] last del: upt_Suc)
       (simp add: filled_def nth_record_def del: upt_Suc)
  finally have after: "?c' = \<lparr>ttlMs = DEFAULT_TTL_MS,
          strictMap = map (\<lambda>i. (nth_strict i, nth_record i)) [EVICT_COUNT..<Suc ?n],
          looseMap = map (\<lambda>i. (nth_loose i, nth_record i)) [EVICT_COUNT..<Suc ?n],
          idMap = map (\<lambda>i. (nth_id i, nth_record i)) [EVICT_COUNT..<Suc ?n],
          next_ref = Suc ?n\<rparr>" .
  have start: "fill 2 = filled 2"
    by (rule fill_filled) (simp add: MAX_CACHE_def)
  have small: "total_size (fill 2) \<le> 3 * MAX_CACHE"
    by (simp add: start total_size_filled MAX_CACHE_def)
  have two: "[0..<2] = [0, Suc 0]" and three: "[0..<3] = [0, Suc 0, 2]"
    by (simp_all add: numeral_2_eq_2 numeral_3_eq_3)
  have "distinct (map strict_of (map nth_insert [0..<2]
                  @ [(nth_key 2, nth_message 2, Some ''C1'', 2)]))"
    by (simp add: two strict_of_def nth_insert_def makeKeys_nth_key)
  note U = capacity_eviction [OF this, of DEFAULT_TTL_MS, folded fill_def, unfolded Let_def]
  from U small
  have "add (nth_key 2) (nth_message 2) (Some ''C1'') 2 (fill 2) = (fill 2)
      \<lparr>strictMap := strictMap (fill 2)
                    @ [(strict (makeKeys (nth_key 2)),
                        \<lparr>ref = next_ref (fill 2), at = 2, container = nth_message 2,
                         authorJid = Some ''C1''\<rparr>)],
       looseMap := AList.update (loose (makeKeys (nth_key 2)))
                     \<lparr>ref = next_ref (fill 2), at = 2, container = nth_message 2,
                      authorJid = Some ''C1''\<rparr> (looseMap (fill 2)),
       idMap := (if idOnly (makeKeys (nth_key 2)) \<noteq> []
                 then AList.update (idOnly (makeKeys (nth_key 2)))
                     \<lparr>ref = next_ref (fill 2), at = 2, container = nth_message 2,
                      authorJid = Some ''C1''\<rparr> (idMap (fill 2))
                 else idMap (fill 2)),
       next_ref := Suc (next_ref (fill 2))\<rparr>"
    by blast
  also have "\<dots> = filled 3"
    unfolding makeKeys_nth_key start
    by (simp add: filled_def two three nth_record_def)
  finally have keep: "add (nth_key 2) (nth_message 2) (Some ''C1'') 2 (fill 2) = filled 3" .
  from old after small keep show ?thesis
    by blast
qed

section \<open>Insertion under a strict key\<close>

lemma map_of_filter_snd:
  "distinct (map fst m) \<Longrightarrow>
   map_of (filter (\<lambda>e. P (snd e)) m) k =
     (case map_of m k of None \<Rightarrow> None | Some v \<Rightarrow> if P v then Some v else None)"
proof (induction m)
  case Nil
  then show ?case by simp
next
  case (Cons e m)
  then show ?case
    by (cases e) (auto simp: map_of_eq_None_iff image_iff split: option.splits)
qed

lemma strict_keys_distinct_add:
  assumes "distinct (map fst (strictMap c))"
  shows "distinct (map fst (strictMap (add k cont a now c)))"
proof -
  have "distinct (map fst (strictMap (made_room c)))"
    using assms by (simp add: made_room_def evictOldest_maps distinct_map_filter)
  then show ?thesis
    by (simp add: add_made_room distinct_update)
qed

lemma other_strict_key_after_add:
  assumes "distinct (map fst (strictMap c))" and "k' \<noteq> strict (makeKeys k)"
  shows "map_of (strictMap (add k cont a now c)) k' =
           (if 3 * MAX_CACHE < total_size c
            then (case map_of (strictMap c) k' of
                    None \<Rightarrow> None
                  | Some r \<Rightarrow> if ref r \<in> ref ` set (oldest EVICT_COUNT c) then None else Some r)
            else map_of (strictMap c) k')"
proof -
  have "map_of (strictMap (add k cont a now c)) k' = map_of (strictMap (made_room c)) k'"
    using assms(2) by (simp add: add_made_room update_conv')
  also have "\<dots> = (if 3 * MAX_CACHE < total_size c
            then (case map_of (strictMap c) k' of
                    None \<Rightarrow> None
                  | Some r \<Rightarrow> if ref r \<in> ref ` set (oldest EVICT_COUNT c) then None else Some r)
            else map_of (strictMap c) k')"
    using map_of_filter_snd [OF assms(1), of "\<lambda>r. ref r \<notin> ref ` set (oldest EVICT_COUNT c)" k']
    by (simp add: made_room_def evictOldest_maps mult.commute split: option.splits)
  finally show ?thesis .
qed

text \<open>
  C5, as the claim states it, fails: an insert that starts with more than
  \<open>3 * MAX_CACHE\<close> index entries first evicts. After the first 5001 messages of the family
  have been inserted the three indexes hold 15003 entries. A second record is then
  inserted under the strict key of the last of them: the record stored under the
  strict key of the first message, another key, is removed.
\<close>

theorem insert_at_capacity_evicts_other_key:
  "map_of (strictMap (fill (Suc MAX_CACHE))) (nth_strict MAX_CACHE) = Some (nth_record MAX_CACHE)
   \<and> map_of (strictMap (fill (Suc MAX_CACHE))) (nth_strict 0) = Some (nth_record 0)
   \<and> strict (makeKeys (nth_key MAX_CACHE)) = nth_strict MAX_CACHE
   \<and> nth_strict MAX_CACHE \<noteq> nth_strict 0
   \<and> map_of (strictMap (add (nth_key MAX_CACHE) (nth_message MAX_CACHE) (Some ''C1'')
                          (int (Suc MAX_CACHE)) (fill (Suc MAX_CACHE)))) (nth_strict 0) = None"
proof -
  let ?n = "Suc MAX_CACHE"
  have keys: "distinct (map fst (strictMap (filled ?n)))"
    by (simp add: filled_def comp_def distinct_map inj_on_def del: upt_Suc)
  have "(nth_strict i, nth_record i) \<in> set (strictMap (filled ?n))" if "i < ?n" for i
    using that by (simp add: filled_def image_iff del: upt_Suc)
  with keys have stored: "map_of (strictMap (filled ?n)) (nth_strict i) = Some (nth_record i)"
    if "i < ?n" for i
    using that by (intro map_of_is_SomeI)
  have other: "nth_strict 0 \<noteq> strict (makeKeys (nth_key MAX_CACHE))"
    by (simp add: makeKeys_nth_key MAX_CACHE_def)
  have "0 < min EVICT_COUNT ?n"
    by (simp add: EVICT_COUNT_def)
  then have "0 \<in> set [0..<min EVICT_COUNT ?n]"
    by (simp del: upt_Suc)
  then have "ref (nth_record 0) \<in> ref ` set (oldest EVICT_COUNT (filled ?n))"
    unfolding oldest_filled by (simp add: nth_record_def image_iff del: upt_Suc)
  with stored [of 0] over_when_full other_strict_key_after_add [OF keys other]
  have "map_of (strictMap (add (nth_key MAX_CACHE) (nth_message MAX_CACHE) (Some ''C1'') (int ?n)
                             (filled ?n))) (nth_strict 0) = None"
    by (simp add: fill_full)
  moreover have "nth_strict MAX_CACHE \<noteq> nth_strict 0"
    by (simp add: MAX_CACHE_def)
  ultimately show ?thesis
    using stored [of 0] stored [of MAX_CACHE]
    by (simp add: fill_full makeKeys_nth_key del: upt_Suc)
qed

text \<open>
  C5, amended. In a cache whose strict index has one entry per key (as a \<^verbatim>\<open>Map\<close> has), an
  insert keeps it so, and after the insert the strict key of the insert leads to the new
  record, whatever was stored under it before. Under every other strict key: when the
  insert starts with at most \<open>3 * MAX_CACHE\<close> index entries, the same record as before is
  stored (or none, as before); when it starts with more, the insert evicts, and the
  record stored before is still stored, unchanged, unless it is one of the
  \<open>EVICT_COUNT\<close> oldest, which are removed.
\<close>

theorem insert_replaces_under_its_strict_key:
  assumes "distinct (map fst (strictMap c))"
  shows "distinct (map fst (strictMap (add k cont a now c)))
         \<and> map_of (strictMap (add k cont a now c)) (strict (makeKeys k)) =
             Some \<lparr>ref = next_ref c, at = now, container = cont, authorJid = a\<rparr>
         \<and> (\<forall>k'. k' \<noteq> strict (makeKeys k) \<longrightarrow>
               map_of (strictMap (add k cont a now c)) k' =
                 (if 3 * MAX_CACHE < total_size c
                  then (case map_of (strictMap c) k' of
                          None \<Rightarrow> None
                        | Some r \<Rightarrow>
                            if ref r \<in> ref ` set (oldest EVICT_COUNT c) then None else Some r)
                  else map_of (strictMap c) k'))"
  using strict_keys_distinct_add [OF assms] other_strict_key_after_add [OF assms]
  by (simp add: strict_after_add)

text \<open>
  Two messages of the family are inserted, then a second record under the strict key of
  the first: that key leads to the new record, and the record of the other message is
  still stored under its key.
\<close>

theorem insert_replaces_under_its_strict_key_witness:
  "distinct (map fst (strictMap (filled 2)))
   \<and> map_of (strictMap (filled 2)) (nth_strict 0) = Some (nth_record 0)
   \<and> map_of (strictMap (add (nth_key 0) (nth_message 0) (Some ''C1'') 7 (filled 2))) (nth_strict 0)
       = Some \<lparr>ref = 2, at = 7, container = nth_message 0, authorJid = Some ''C1''\<rparr>
   \<and> map_of (strictMap (add (nth_key 0) (nth_message 0) (Some ''C1'') 7 (filled 2))) (nth_strict 1)
       = Some (nth_record 1)"
proof -
  have two: "[0..<2] = [0, Suc 0]"
    by (simp add: numeral_2_eq_2)
  have keys: "distinct (map fst (strictMap (filled 2)))"
    by (simp add: filled_def two)
  have small: "\<not> 3 * MAX_CACHE < total_size (filled 2)"
    by (simp add: total_size_filled MAX_CACHE_def)
  have old: "map_of (strictMap (filled 2)) (nth_strict 0) = Some (nth_record 0)"
    "map_of (strictMap (filled 2)) (nth_strict 1) = Some (nth_record 1)"
    by (simp_all add: filled_def two)
  have "next_ref (filled 2) = 2" "strict (makeKeys (nth_key 0)) = nth_strict 0"
    by (simp_all add: filled_def makeKeys_nth_key)
  with insert_replaces_under_its_strict_key [OF keys, of "nth_key 0" "nth_message 0" "Some ''C1''" 7]
    keys small old
  show ?thesis
    by simp
qed

end
